theory Spec2Isabelle
  imports Main "HOL-Library.Multiset"
begin

section \<open>The Process record\<close>

text \<open>
  The class \<open>Process\<close> of Project5.cpp. The field \<open>id\<close> is called \<open>proc_id\<close> here,
  since \<open>id\<close> is the identity function of HOL. Values of the C++ type \<open>int\<close> are
  numbers of type \<open>int\<close> between \<open>INT_MIN\<close> and \<open>INT_MAX\<close>, and the two operations
  of the program that can leave this range on such values have their wrap-around written
  out: the decrement of a remaining time (\<open>decrement\<close>) and the doubling of the shell's
  interval (\<open>int_wrap\<close>). The two counters of the queue are plain numbers: they count
  the processes held, and \<open>2 ^ 31\<close> processes are needed to wrap them.

  The queue holds its processes through \<open>shared_ptr\<close>. The model stores the records
  themselves: the only field written after construction is \<open>remainingTime\<close>, and the
  code writes and reads it only through the entries of the wait map.
\<close>

definition INT_MIN :: int where
  "INT_MIN = - 2147483648"

definition INT_MAX :: int where
  "INT_MAX = 2147483647"

text \<open>
  \<open>int_wrap x\<close> is the value of the machine type that the 32-bit result \<open>x\<close> of an
  arithmetic operation stands for. \<open>decrement x\<close> is \<open>--x\<close>: one less, except at
  \<open>INT_MIN\<close>, where the subtraction overflows and the machine gives \<open>INT_MAX\<close>.
\<close>

definition int_wrap :: "int \<Rightarrow> int" where
  "int_wrap x = (x + 2147483648) mod 4294967296 - 2147483648"

definition decrement :: "int \<Rightarrow> int" where
  "decrement x = (if x = INT_MIN then INT_MAX else x - 1)"

record Process =
  proc_id :: int
  isForeground :: bool
  command :: string
  promoted :: bool
  remainingTime :: int

text \<open>The constructor \<open>Process(id, isForeground, command)\<close>.\<close>

definition mk_Process :: "int \<Rightarrow> bool \<Rightarrow> string \<Rightarrow> Process" where
  "mk_Process i f c =
     \<lparr>proc_id = i, isForeground = f, command = c, promoted = False, remainingTime = 0\<rparr>"

subsection \<open>Writing an int to a stream\<close>

definition digit_char :: "nat \<Rightarrow> char" where
  "digit_char d = ''0123456789'' ! d"

function show_nat :: "nat \<Rightarrow> string" where
  "show_nat n = (if n < 10 then [digit_char n] else show_nat (n div 10) @ [digit_char (n mod 10)])"
  by pat_completeness auto
termination
  by (relation "measure (\<lambda>n. n)") auto

declare show_nat.simps [simp del]

definition show_int :: "int \<Rightarrow> string" where
  "show_int i = (if i < 0 then CHR ''-'' # show_nat (nat (- i)) else show_nat (nat i))"

text \<open>\<open>Process::toString\<close>: the id, then F or B, then a star when promoted.\<close>

definition toString :: "Process \<Rightarrow> string" where
  "toString p =
     (let ss = show_int (proc_id p) @ (if isForeground p then ''F'' else ''B'')
      in if promoted p then ss @ ''*'' else ss)"

section \<open>The containers of the standard library\<close>

text \<open>
  \<open>std::find_if\<close> on a list gives the position of the first element that satisfies the
  predicate, or the end of the list (here \<open>None\<close>). \<open>erase\<close> removes the element at a
  position.
\<close>

fun find_if :: "('a \<Rightarrow> bool) \<Rightarrow> 'a list \<Rightarrow> nat option" where
  "find_if P [] = None"
| "find_if P (x # xs) = (if P x then Some 0 else map_option Suc (find_if P xs))"

definition erase :: "nat \<Rightarrow> 'a list \<Rightarrow> 'a list" where
  "erase i xs = take i xs @ drop (Suc i) xs"

text \<open>
  \<open>std::map<int, ...>\<close> is an association list whose keys increase strictly: the
  iteration order of the map is the order of the list. \<open>map_assign k v m\<close> is
  \<open>m[k] = v\<close>, and \<open>map_of m k\<close> is the lookup.
\<close>

type_synonym wait_map = "(int \<times> Process) list"

definition map_wf :: "wait_map \<Rightarrow> bool" where
  "map_wf m = sorted_wrt (<) (map fst m)"

fun map_assign :: "int \<Rightarrow> Process \<Rightarrow> wait_map \<Rightarrow> wait_map" where
  "map_assign k v [] = [(k, v)]"
| "map_assign k v ((k', v') # m) =
     (if k < k' then (k, v) # (k', v') # m
      else if k = k' then (k, v) # m
      else (k', v') # map_assign k v m)"

section \<open>The DynamicQueue\<close>

record DynamicQueue =
  fgProcesses :: "Process list"
  bgProcesses :: "Process list"
  waitQueue :: wait_map
  processCount :: int
  bgCount :: int

definition empty_queue :: DynamicQueue where
  "empty_queue =
     \<lparr>fgProcesses = [], bgProcesses = [], waitQueue = [],
     processCount = 0, bgCount = 0\<rparr>"

datatype error = NullDereference

subsection \<open>enqueue\<close>

definition enqueue :: "Process \<Rightarrow> DynamicQueue \<Rightarrow> DynamicQueue" where
  "enqueue process q =
     (let q1 = (if isForeground process
                then q\<lparr>fgProcesses := fgProcesses q @ [process]\<rparr>
                else q\<lparr>bgProcesses := bgProcesses q @ [process], bgCount := bgCount q + 1\<rparr>)
      in q1\<lparr>processCount := processCount q1 + 1\<rparr>)"

subsection \<open>simulateSleep\<close>

text \<open>
  The first part of \<open>simulateSleep\<close> moves the process found in a ready list into the
  wait map. The last statement, \<open>waitQueue[pid]->remainingTime = seconds\<close>, runs in
  every case: when the map has no entry for \<open>pid\<close>, \<open>operator[]\<close> inserts a null
  pointer and the assignment dereferences it, which is the error \<open>NullDereference\<close>.
\<close>

definition move_to_wait :: "int \<Rightarrow> DynamicQueue \<Rightarrow> DynamicQueue" where
  "move_to_wait pid q =
     (case find_if (\<lambda>p. proc_id p = pid) (fgProcesses q) of
        Some i \<Rightarrow>
          q\<lparr>waitQueue := map_assign pid (fgProcesses q ! i) (waitQueue q),
            fgProcesses := erase i (fgProcesses q)\<rparr>
      | None \<Rightarrow>
          (case find_if (\<lambda>p. proc_id p = pid) (bgProcesses q) of
             Some i \<Rightarrow>
               q\<lparr>waitQueue := map_assign pid (bgProcesses q ! i) (waitQueue q),
                 bgProcesses := erase i (bgProcesses q),
                 bgCount := bgCount q - 1\<rparr>
           | None \<Rightarrow> q))"

definition simulateSleep :: "int \<Rightarrow> int \<Rightarrow> DynamicQueue \<Rightarrow> error + DynamicQueue" where
  "simulateSleep pid seconds q =
     (let q1 = move_to_wait pid q
      in case map_of (waitQueue q1) pid of
           None \<Rightarrow> Inl NullDereference
         | Some p \<Rightarrow>
             Inr (q1\<lparr>waitQueue :=
                       map_assign pid (p\<lparr>remainingTime := seconds\<rparr>) (waitQueue q1)\<rparr>))"

subsection \<open>wakeUpProcesses\<close>

text \<open>
  The loop of \<open>wakeUpProcesses\<close> walks the wait map with an iterator, here the position
  \<open>i\<close>. It decrements the entry under the iterator; an entry that reaches 0 or less is
  pushed to the back of the list of its class and erased from the map, which leaves the
  iterator on the next entry; otherwise the iterator advances.
\<close>

definition push_ready :: "Process \<Rightarrow> DynamicQueue \<Rightarrow> DynamicQueue" where
  "push_ready p q =
     (if isForeground p
      then q\<lparr>fgProcesses := fgProcesses q @ [p]\<rparr>
      else q\<lparr>bgProcesses := bgProcesses q @ [p], bgCount := bgCount q + 1\<rparr>)"

function wakeUp_from :: "nat \<Rightarrow> DynamicQueue \<Rightarrow> DynamicQueue" where
  "wakeUp_from i q =
     (if i < length (waitQueue q) then
        (let k = fst (waitQueue q ! i);
             p = (snd (waitQueue q ! i))\<lparr>remainingTime :=
                                              decrement (remainingTime (snd (waitQueue q ! i)))\<rparr>
         in if remainingTime p \<le> 0
            then wakeUp_from i ((push_ready p q)\<lparr>waitQueue := erase i (waitQueue q)\<rparr>)
            else wakeUp_from (Suc i) (q\<lparr>waitQueue := (waitQueue q)[i := (k, p)]\<rparr>))
      else q)"
  by pat_completeness auto
termination
  by (relation "measure (\<lambda>(i, q). length (waitQueue q) - i)")
     (auto simp: erase_def push_ready_def)

declare wakeUp_from.simps [simp del]

definition wakeUpProcesses :: "DynamicQueue \<Rightarrow> DynamicQueue" where
  "wakeUpProcesses q = wakeUp_from 0 q"

subsection \<open>printQueue\<close>

text \<open>
  \<open>printQueue\<close> writes to \<open>cout\<close>, here the text \<open>out\<close> written so far. The three
  range-based loops are the functions \<open>print_ready\<close> and \<open>print_wait\<close>. The function
  returns the queue as the member function leaves it, and the new contents of the stream.
\<close>

definition newline :: string where
  "newline = [CHR 0x0A]"

fun print_ready :: "Process list \<Rightarrow> string \<Rightarrow> string" where
  "print_ready [] out = out"
| "print_ready (proc # procs) out = print_ready procs (out @ ''['' @ toString proc @ ''] '')"

fun print_wait :: "wait_map \<Rightarrow> string \<Rightarrow> string" where
  "print_wait [] out = out"
| "print_wait (wp # wps) out =
     print_wait wps
       (out @ ''['' @ toString (snd wp) @ '': '' @ show_int (remainingTime (snd wp)) @ ''s] '')"

definition printQueue :: "DynamicQueue \<Rightarrow> string \<Rightarrow> DynamicQueue \<times> string" where
  "printQueue q out =
     (let o1 = out @ ''Running: ['' @ show_int (bgCount q) @ ''B]'' @ newline;
          o2 = o1 @ ''---------------------------'' @ newline;
          o3 = o2 @ ''DQ: (bottom) '';
          o4 = print_ready (bgProcesses q) o3;
          o5 = o4 @ newline @ ''P => '';
          o6 = print_ready (fgProcesses q) o5;
          o7 = o6 @ ''(top)'' @ newline;
          o8 = o7 @ ''---------------------------'' @ newline;
          o9 = o8 @ ''WQ: '';
          o10 = print_wait (waitQueue q) o9;
          o11 = o10 @ newline @ ''...'' @ newline
      in (q, o11))"

section \<open>One tick, entry by entry\<close>

text \<open>
  What one call of \<open>wakeUpProcesses\<close> does to the entries of the wait map:
  \<open>tick_entry\<close> decrements the remaining time as the loop does; \<open>woken\<close> lists, in
  the order of the map, the decremented processes that have reached 0 or less; \<open>stay\<close>
  keeps the others. \<open>tick_closed\<close> is the queue these leave.
\<close>

definition tick_entry :: "int \<times> Process \<Rightarrow> int \<times> Process" where
  "tick_entry e = (fst e, (snd e)\<lparr>remainingTime := decrement (remainingTime (snd e))\<rparr>)"

definition stay :: "wait_map \<Rightarrow> wait_map" where
  "stay m = filter (\<lambda>e. 0 < remainingTime (snd e)) (map tick_entry m)"

definition woken :: "wait_map \<Rightarrow> Process list" where
  "woken m = map snd (filter (\<lambda>e. remainingTime (snd e) \<le> 0) (map tick_entry m))"

definition tick_closed :: "DynamicQueue \<Rightarrow> DynamicQueue" where
  "tick_closed q =
     q\<lparr>fgProcesses := fgProcesses q @ filter isForeground (woken (waitQueue q)),
       bgProcesses := bgProcesses q @ filter (\<lambda>p. \<not> isForeground p) (woken (waitQueue q)),
       waitQueue := stay (waitQueue q),
       bgCount := bgCount q
                  + int (length (filter (\<lambda>p. \<not> isForeground p) (woken (waitQueue q))))\<rparr>"

section \<open>The specification of one tick\<close>

text \<open>
  What the specification says about \<open>tick_wake\<close>, in its own words: every remaining
  time becomes one less (\<open>spec_tick_entry\<close>); the entries then at 0 or less leave the
  map for the back of the list of their class, in the order of the map
  (\<open>spec_woken\<close>), and the background counter grows with the background ones; the
  other entries stay (\<open>spec_stay\<close>).
\<close>

definition spec_tick_entry :: "int \<times> Process \<Rightarrow> int \<times> Process" where
  "spec_tick_entry e = (fst e, (snd e)\<lparr>remainingTime := remainingTime (snd e) - 1\<rparr>)"

definition spec_stay :: "wait_map \<Rightarrow> wait_map" where
  "spec_stay m = filter (\<lambda>e. 0 < remainingTime (snd e)) (map spec_tick_entry m)"

definition spec_woken :: "wait_map \<Rightarrow> Process list" where
  "spec_woken m = map snd (filter (\<lambda>e. remainingTime (snd e) \<le> 0) (map spec_tick_entry m))"

definition tick_wake_spec :: "DynamicQueue \<Rightarrow> DynamicQueue" where
  "tick_wake_spec q =
     q\<lparr>fgProcesses := fgProcesses q @ filter isForeground (spec_woken (waitQueue q)),
       bgProcesses := bgProcesses q @ filter (\<lambda>p. \<not> isForeground p) (spec_woken (waitQueue q)),
       waitQueue := spec_stay (waitQueue q),
       bgCount := bgCount q
                  + int (length (filter (\<lambda>p. \<not> isForeground p) (spec_woken (waitQueue q))))\<rparr>"

text \<open>
  The states on which the arithmetic of one tick stays inside the machine type: no
  waiting process is at \<open>INT_MIN\<close>, and the background counter has room for the
  processes the tick wakes.
\<close>

definition tick_in_range :: "DynamicQueue \<Rightarrow> bool" where
  "tick_in_range q =
     (list_all (\<lambda>e. INT_MIN < remainingTime (snd e) \<and> remainingTime (snd e) \<le> INT_MAX)
        (waitQueue q)
      \<and> INT_MIN \<le> bgCount q
      \<and> bgCount q + int (length (filter (\<lambda>p. \<not> isForeground p) (spec_woken (waitQueue q))))
          \<le> INT_MAX)"

section \<open>The specification of the snapshot\<close>

text \<open>
  The layout of the specification, line by line. A label is the id, the class letter and
  a star for a promoted process; every listed entry is followed by one blank.
\<close>

definition spec_label :: "Process \<Rightarrow> string" where
  "spec_label p =
     show_int (proc_id p) @ (if isForeground p then ''F'' else ''B'')
       @ (if promoted p then ''*'' else [])"

definition spec_separator :: string where
  "spec_separator = replicate 27 (CHR ''-'')"

definition spec_lines :: "DynamicQueue \<Rightarrow> string list" where
  "spec_lines q =
     [''Running: ['' @ show_int (bgCount q) @ ''B]'',
      spec_separator,
      ''DQ: (bottom) '' @ concat (map (\<lambda>p. ''['' @ spec_label p @ ''] '') (bgProcesses q)),
      ''P => '' @ concat (map (\<lambda>p. ''['' @ spec_label p @ ''] '') (fgProcesses q)) @ ''(top)'',
      spec_separator,
      ''WQ: '' @ concat (map (\<lambda>e. ''['' @ spec_label (snd e) @ '': ''
                                   @ show_int (remainingTime (snd e)) @ ''s] '') (waitQueue q)),
      ''...'']"

definition spec_snapshot :: "DynamicQueue \<Rightarrow> string" where
  "spec_snapshot q = concat (map (\<lambda>l. l @ newline) (spec_lines q))"

section \<open>The shell agent and runs of calls\<close>

text \<open>
  The two agents act on the shared queue only through its four member functions, each of
  which holds the mutex for its whole body. An agent is therefore the sequence of calls
  it makes, and a run is a sequence of calls executed one after the other on the queue
  and the output stream. \<open>SleepFor\<close> is \<open>this_thread::sleep_for\<close>, which touches
  neither.
\<close>

datatype call =
    Enqueue Process
  | SimulateSleep int int
  | WakeUpProcesses
  | PrintQueue
  | SleepFor int

fun exec_call :: "call \<Rightarrow> DynamicQueue \<times> string \<Rightarrow> error + DynamicQueue \<times> string" where
  "exec_call (Enqueue p) (q, out) = Inr (enqueue p q, out)"
| "exec_call (SimulateSleep pid seconds) (q, out) =
     (case simulateSleep pid seconds q of Inl e \<Rightarrow> Inl e | Inr q' \<Rightarrow> Inr (q', out))"
| "exec_call WakeUpProcesses (q, out) = Inr (wakeUpProcesses q, out)"
| "exec_call PrintQueue (q, out) = Inr (printQueue q out)"
| "exec_call (SleepFor n) (q, out) = Inr (q, out)"

fun run_calls :: "call list \<Rightarrow> DynamicQueue \<times> string \<Rightarrow> error + DynamicQueue \<times> string" where
  "run_calls [] w = Inr w"
| "run_calls (c # cs) w =
     (case exec_call c w of Inl e \<Rightarrow> Inl e | Inr w' \<Rightarrow> run_calls cs w')"

text \<open>
  \<open>shellProcess\<close>: the loop over the six commands, with the loop variable
  \<open>processId\<close>. The tests \<open>processId % 2 == 0\<close> and \<open>processId % 3 == 0\<close> ask for a
  remainder of zero, which \<open>mod\<close> and the truncating \<open>%\<close> of C++ agree on. The
  product \<open>interval * 2\<close> is an \<open>int\<close>: it wraps when the interval is beyond
  \<open>2 ^ 30\<close>. The loop variable runs from 2 to 8.
\<close>

definition commands :: "string list" where
  "commands =
     [''alarm clock'', ''todo list'', ''email check'', ''music player'', ''video player'',
      ''web browser'']"

fun shell_loop :: "int \<Rightarrow> string list \<Rightarrow> int \<Rightarrow> call list" where
  "shell_loop interval [] processId = []"
| "shell_loop interval (line # lines) processId =
     (let isFg = (processId mod 2 = 0);
          proc = mk_Process processId isFg line;
          processId' = processId + 1
      in [Enqueue proc]
         @ (if processId' mod 3 = 0 then [SimulateSleep (proc_id proc) (int_wrap (interval * 2))] else [])
         @ [SleepFor interval, PrintQueue]
         @ shell_loop interval lines processId')"

definition shellProcess :: "int \<Rightarrow> call list" where
  "shellProcess interval = shell_loop interval commands 2"

text \<open>The queue as \<open>main\<close> hands it to the agents: the shell and the monitor enqueued.\<close>

definition main_queue :: DynamicQueue where
  "main_queue =
     enqueue (mk_Process 1 False ''monitor'') (enqueue (mk_Process 0 True ''shell'') empty_queue)"

section \<open>Predicates on states and runs\<close>

text \<open>
  \<open>ready_process pid q\<close> is the process with id \<open>pid\<close> that \<open>simulateSleep\<close>
  finds: the first in the foreground list, else the first in the background list.
  \<open>in_ready pid q\<close>: there is one.
\<close>

definition ready_process :: "int \<Rightarrow> DynamicQueue \<Rightarrow> Process option" where
  "ready_process pid q =
     (case find_if (\<lambda>p. proc_id p = pid) (fgProcesses q) of
        Some i \<Rightarrow> Some (fgProcesses q ! i)
      | None \<Rightarrow>
          (case find_if (\<lambda>p. proc_id p = pid) (bgProcesses q) of
             Some i \<Rightarrow> Some (bgProcesses q ! i)
           | None \<Rightarrow> None))"

definition in_ready :: "int \<Rightarrow> DynamicQueue \<Rightarrow> bool" where
  "in_ready pid q = (ready_process pid q \<noteq> None)"

text \<open>The ids the queue holds: those of the two lists and the keys of the wait map.\<close>

definition held_ids :: "DynamicQueue \<Rightarrow> int list" where
  "held_ids q =
     map proc_id (fgProcesses q) @ map proc_id (bgProcesses q) @ map fst (waitQueue q)"

text \<open>The list a process belongs to by its class.\<close>

definition native_list :: "Process \<Rightarrow> DynamicQueue \<Rightarrow> Process list" where
  "native_list p q = (if isForeground p then fgProcesses q else bgProcesses q)"

text \<open>The two counters agree with the sizes of the containers.\<close>

definition counts_ok :: "DynamicQueue \<Rightarrow> bool" where
  "counts_ok q =
     (processCount q
        = int (length (fgProcesses q) + length (bgProcesses q) + length (waitQueue q))
      \<and> bgCount q = int (length (bgProcesses q)))"

text \<open>Every process is in the list of its class.\<close>

definition class_ok :: "DynamicQueue \<Rightarrow> bool" where
  "class_ok q =
     (list_all isForeground (fgProcesses q)
      \<and> list_all (\<lambda>p. \<not> isForeground p) (bgProcesses q))"

text \<open>Every process in the wait map has a positive remaining time.\<close>

definition wait_positive :: "DynamicQueue \<Rightarrow> bool" where
  "wait_positive q = list_all (\<lambda>e. 0 < remainingTime (snd e)) (waitQueue q)"

text \<open>
  Conditions on a run, checked call by call on the state the call meets:
  \<open>sleeps_target_ready\<close> holds when every \<open>simulateSleep\<close> names a process that is in
  a ready list, and \<open>enqueues_fresh\<close> when no \<open>enqueue\<close> brings an id the queue holds
  already. Nothing is asked of the calls behind a call that fails: the run ends there.
\<close>

fun sleeps_target_ready :: "call list \<Rightarrow> DynamicQueue \<times> string \<Rightarrow> bool" where
  "sleeps_target_ready [] w = True"
| "sleeps_target_ready (c # cs) w =
     ((case c of SimulateSleep pid seconds \<Rightarrow> in_ready pid (fst w) | _ \<Rightarrow> True)
      \<and> (case exec_call c w of Inl e \<Rightarrow> True | Inr w' \<Rightarrow> sleeps_target_ready cs w'))"

fun enqueues_fresh :: "call list \<Rightarrow> DynamicQueue \<times> string \<Rightarrow> bool" where
  "enqueues_fresh [] w = True"
| "enqueues_fresh (c # cs) w =
     ((case c of Enqueue p \<Rightarrow> proc_id p \<notin> set (held_ids (fst w)) | _ \<Rightarrow> True)
      \<and> (case exec_call c w of Inl e \<Rightarrow> True | Inr w' \<Rightarrow> enqueues_fresh cs w'))"

text \<open>
  The ids of the queue are in order: no id is held twice, the keys of the wait map
  increase, and every entry of the wait map is filed under the id of its process.
\<close>

definition ids_ok :: "DynamicQueue \<Rightarrow> bool" where
  "ids_ok q =
     (distinct (held_ids q) \<and> map_wf (waitQueue q)
      \<and> list_all (\<lambda>e. proc_id (snd e) = fst e) (waitQueue q))"

text \<open>
  A call names the id \<open>pid\<close> when it is a \<open>simulateSleep\<close> for \<open>pid\<close> or the
  \<open>enqueue\<close> of a process with this id. \<open>leaves_alone pid cs\<close>: no call of the run
  \<open>cs\<close> names \<open>pid\<close>. \<open>count_ticks cs\<close> is the number of calls of
  \<open>wakeUpProcesses\<close> in the run.
\<close>

fun names_pid :: "int \<Rightarrow> call \<Rightarrow> bool" where
  "names_pid pid (Enqueue p) = (proc_id p = pid)"
| "names_pid pid (SimulateSleep pid' seconds) = (pid' = pid)"
| "names_pid pid WakeUpProcesses = False"
| "names_pid pid PrintQueue = False"
| "names_pid pid (SleepFor n) = False"

definition leaves_alone :: "int \<Rightarrow> call list \<Rightarrow> bool" where
  "leaves_alone pid cs = (filter (names_pid pid) cs = [])"

definition count_ticks :: "call list \<Rightarrow> nat" where
  "count_ticks cs = length (filter (\<lambda>c. c = WakeUpProcesses) cs)"

text \<open>\<open>ticks n q\<close>: the queue after \<open>n\<close> calls of \<open>wakeUpProcesses\<close>.\<close>

primrec ticks :: "nat \<Rightarrow> DynamicQueue \<Rightarrow> DynamicQueue" where
  "ticks 0 q = q"
| "ticks (Suc n) q = wakeUpProcesses (ticks n q)"

text \<open>
  The entries of a wait map that come after the id \<open>pid\<close>, hold a process of the class
  of \<open>p\<close> and have one tick or less to wait.
\<close>

definition later_expiring :: "int \<Rightarrow> Process \<Rightarrow> wait_map \<Rightarrow> wait_map" where
  "later_expiring pid p m =
     filter (\<lambda>e. pid < fst e \<and> isForeground (snd e) = isForeground p
                 \<and> remainingTime (snd e) \<le> 1) m"

text \<open>Three processes of the shell's catalogue, for the concrete runs below.\<close>

definition alarm :: Process where
  "alarm = mk_Process 2 True ''alarm clock''"

definition todo :: Process where
  "todo = mk_Process 3 False ''todo list''"

definition email :: Process where
  "email = mk_Process 4 True ''email check''"

section \<open>Properties of the containers\<close>

lemma erase_take: "i < length xs \<Longrightarrow> take i (erase i xs) = take i xs"
  by (simp add: erase_def)

lemma erase_drop: "i < length xs \<Longrightarrow> drop i (erase i xs) = drop (Suc i) xs"
  by (simp add: erase_def)

lemma find_if_Some: "find_if P xs = Some i \<Longrightarrow> i < length xs \<and> P (xs ! i)"
  by (induction xs arbitrary: i) (auto split: if_splits)

lemma find_if_None: "find_if P xs = None \<longleftrightarrow> (\<forall>x \<in> set xs. \<not> P x)"
  by (induction xs) auto

lemma length_erase: "i < length xs \<Longrightarrow> length (erase i xs) = length xs - 1"
  by (simp add: erase_def)

lemma set_erase: "set (erase i xs) \<subseteq> set xs"
  by (auto simp: erase_def dest: in_set_takeD in_set_dropD)

lemma mset_erase: "i < length xs \<Longrightarrow> add_mset (xs ! i) (mset (erase i xs)) = mset xs"
proof -
  assume a: "i < length xs"
  have "xs = take i xs @ xs ! i # drop (Suc i) xs" using a by (simp add: id_take_nth_drop)
  then have "mset xs = mset (take i xs @ xs ! i # drop (Suc i) xs)" by simp
  then show ?thesis by (simp add: erase_def)
qed

lemma map_erase: "map f (erase i xs) = erase i (map f xs)"
  by (simp add: erase_def take_map drop_map)

lemma map_assign_entries: "set (map_assign k v m) \<subseteq> insert (k, v) (set m)"
  by (induction m) (auto split: if_splits)

lemma map_assign_lookup: "map_of (map_assign k v m) k = Some v"
  by (induction m) auto

lemma map_assign_keys_new:
  "k \<notin> set (map fst m) \<Longrightarrow> mset (map fst (map_assign k v m)) = add_mset k (mset (map fst m))"
  by (induction m) auto

lemma map_assign_length_new:
  "k \<notin> set (map fst m) \<Longrightarrow> length (map_assign k v m) = Suc (length m)"
  by (induction m) auto

lemma map_assign_keys: "set (map fst (map_assign k v m)) = insert k (set (map fst m))"
proof (induction m)
  case Nil
  show ?case by simp
next
  case (Cons e m)
  obtain k' v' where e: "e = (k', v')" by (cases e)
  show ?case using Cons.IH by (cases "k < k'"; cases "k = k'") (auto simp: e)
qed

lemma map_assign_wf: "map_wf m \<Longrightarrow> map_wf (map_assign k v m)"
proof (induction m)
  case Nil
  show ?case by (simp add: map_wf_def)
next
  case (Cons e m)
  obtain k' v' where e: "e = (k', v')" by (cases e)
  have wf: "map_wf m" and gt: "\<forall>x\<in>set (map fst m). k' < x"
    using Cons.prems by (auto simp: map_wf_def e)
  have ih: "sorted_wrt (<) (map fst (map_assign k v m))"
    using Cons.IH[OF wf] by (simp add: map_wf_def)
  have keys: "\<forall>x\<in>set (map fst (map_assign k v m)). x = k \<or> x \<in> set (map fst m)"
    using map_assign_keys[of k v m] by blast
  show ?case
  proof (cases "k < k'")
    case True
    then show ?thesis using Cons.prems gt by (auto simp: map_wf_def e)
  next
    case False
    show ?thesis
    proof (cases "k = k'")
      case True
      then show ?thesis using Cons.prems by (auto simp: map_wf_def e)
    next
      case ne: False
      then have lt: "k' < k" using False by simp
      have "\<forall>x\<in>set (map fst (map_assign k v m)). k' < x"
      proof
        fix x assume "x \<in> set (map fst (map_assign k v m))"
        with keys have "x = k \<or> x \<in> set (map fst m)" by (rule bspec)
        then show "k' < x" using gt lt by auto
      qed
      then show ?thesis using False ne ih by (simp add: map_wf_def e)
    qed
  qed
qed

lemma map_assign_map_of: "map_wf m \<Longrightarrow> map_of (map_assign k v m) = (map_of m)(k \<mapsto> v)"
proof (induction m)
  case Nil
  then show ?case by auto
next
  case (Cons e m)
  obtain k' v' where e: "e = (k', v')" by (cases e)
  have wf: "map_wf m" and gt: "\<forall>x\<in>set (map fst m). k' < x" using Cons.prems by (auto simp: map_wf_def e)
  show ?case
  proof (cases "k < k'")
    case True
    then show ?thesis by (auto simp: e)
  next
    case False
    then show ?thesis using Cons.IH[OF wf] by (auto simp: e)
  qed
qed


section \<open>One tick in closed form\<close>

lemma wakeUp_from_closed:
  "i \<le> length (waitQueue q) \<Longrightarrow>
   wakeUp_from i q =
     q\<lparr>fgProcesses := fgProcesses q @ filter isForeground (woken (drop i (waitQueue q))),
       bgProcesses := bgProcesses q @ filter (\<lambda>p. \<not> isForeground p) (woken (drop i (waitQueue q))),
       waitQueue := take i (waitQueue q) @ stay (drop i (waitQueue q)),
       bgCount := bgCount q + int (length (filter (\<lambda>p. \<not> isForeground p) (woken (drop i (waitQueue q)))))\<rparr>"
proof (induction i q rule: wakeUp_from.induct)
  case (1 i q)
  show ?case
  proof (cases "i < length (waitQueue q)")
    case False
    with 1(3) have "i = length (waitQueue q)" by simp
    then show ?thesis
      by (subst wakeUp_from.simps) (simp add: stay_def woken_def)
  next
    case True
    define e where "e = waitQueue q ! i"
    define p where "p = (snd e)\<lparr>remainingTime := decrement (remainingTime (snd e))\<rparr>"
    have dr: "drop i (waitQueue q) = e # drop (Suc i) (waitQueue q)"
      using True by (simp add: e_def Cons_nth_drop_Suc)
    have fe: "fst e = fst (waitQueue q ! i)" by (simp add: e_def)
    have pe: "p = (snd (waitQueue q ! i))\<lparr>remainingTime :=
                                            decrement (remainingTime (snd (waitQueue q ! i)))\<rparr>"
      by (simp add: e_def p_def)
    have te: "tick_entry e = (fst e, p)" by (simp add: tick_entry_def p_def)
    show ?thesis
    proof (cases "remainingTime p \<le> 0")
      case expired: True
      let ?q' = "(push_ready p q)\<lparr>waitQueue := erase i (waitQueue q)\<rparr>"
      have len: "i \<le> length (waitQueue ?q')" using True by (simp add: erase_def)
      have ih: "wakeUp_from i ?q' =
        ?q'\<lparr>fgProcesses := fgProcesses ?q' @ filter isForeground (woken (drop i (waitQueue ?q'))),
            bgProcesses := bgProcesses ?q' @ filter (\<lambda>p. \<not> isForeground p) (woken (drop i (waitQueue ?q'))),
            waitQueue := take i (waitQueue ?q') @ stay (drop i (waitQueue ?q')),
            bgCount := bgCount ?q' + int (length (filter (\<lambda>p. \<not> isForeground p) (woken (drop i (waitQueue ?q')))))\<rparr>"
        using 1(1)[OF True fe pe expired len] .
      have step: "wakeUp_from i q = wakeUp_from i ?q'"
        using True expired by (subst wakeUp_from.simps) (simp add: e_def p_def Let_def)
      show ?thesis
        unfolding step ih using True expired
        by (simp add: dr te stay_def woken_def erase_take erase_drop push_ready_def)
    next
      case waiting: False
      let ?q' = "q\<lparr>waitQueue := (waitQueue q)[i := (fst e, p)]\<rparr>"
      have len: "Suc i \<le> length (waitQueue ?q')" using True by simp
      have ih: "wakeUp_from (Suc i) ?q' =
        ?q'\<lparr>fgProcesses := fgProcesses ?q' @ filter isForeground (woken (drop (Suc i) (waitQueue ?q'))),
            bgProcesses := bgProcesses ?q' @ filter (\<lambda>p. \<not> isForeground p) (woken (drop (Suc i) (waitQueue ?q'))),
            waitQueue := take (Suc i) (waitQueue ?q') @ stay (drop (Suc i) (waitQueue ?q')),
            bgCount := bgCount ?q' + int (length (filter (\<lambda>p. \<not> isForeground p) (woken (drop (Suc i) (waitQueue ?q')))))\<rparr>"
        using 1(2)[OF True fe pe waiting len] .
      have step: "wakeUp_from i q = wakeUp_from (Suc i) ?q'"
        using True waiting by (subst wakeUp_from.simps) (simp add: e_def p_def Let_def)
      show ?thesis
        unfolding step ih using True waiting
        by (simp add: dr te stay_def woken_def take_Suc_conv_app_nth)
    qed
  qed
qed

lemma wakeUpProcesses_closed: "wakeUpProcesses q = tick_closed q"
  by (simp add: wakeUpProcesses_def wakeUp_from_closed tick_closed_def)

lemma decrement_in_range: "INT_MIN < x \<Longrightarrow> decrement x = x - 1"
  by (simp add: decrement_def)

lemma decrement_positive: "1 \<le> x \<Longrightarrow> decrement x = x - 1"
  by (simp add: decrement_def INT_MIN_def)

lemma decrement_at_INT_MIN: "decrement INT_MIN = INT_MAX"
  by (simp add: decrement_def)

lemma decrement_int_wrap:
  "INT_MIN \<le> x \<Longrightarrow> x \<le> INT_MAX \<Longrightarrow> decrement x = int_wrap (x - 1)"
  by (simp add: decrement_def int_wrap_def INT_MIN_def INT_MAX_def)

lemma tick_entries_in_range:
  "list_all (\<lambda>e. INT_MIN < remainingTime (snd e) \<and> remainingTime (snd e) \<le> INT_MAX) m \<Longrightarrow>
   map tick_entry m = map spec_tick_entry m"
  by (induction m) (simp_all add: tick_entry_def spec_tick_entry_def decrement_in_range)

lemma tick_closed_in_range: "tick_in_range q \<Longrightarrow> tick_closed q = tick_wake_spec q"
  by (simp add: tick_in_range_def tick_closed_def tick_wake_spec_def woken_def stay_def
      spec_woken_def spec_stay_def tick_entries_in_range)

text \<open>
  Claim C4. For every queue state on which the arithmetic of the tick stays inside the
  machine type (no waiting process at \<open>INT_MIN\<close>, room in the background counter), one
  call of \<open>wakeUpProcesses\<close> decrements the remaining time of every entry of the wait
  map by one; the entries that reach 0 or less (an entry that was at 0 before the call
  among them) leave the map and are appended, in the order of the map, to the back of the
  list of their class, the background counter growing by the number of background
  processes woken; the other entries stay in the map. On an empty wait map the call
  changes nothing.
\<close>

theorem wakeUpProcesses_tick:
  "(tick_in_range q \<longrightarrow>
      wakeUpProcesses q =
        q\<lparr>fgProcesses := fgProcesses q @ filter isForeground (spec_woken (waitQueue q)),
          bgProcesses :=
            bgProcesses q @ filter (\<lambda>p. \<not> isForeground p) (spec_woken (waitQueue q)),
          waitQueue := spec_stay (waitQueue q),
          bgCount := bgCount q
                     + int (length (filter (\<lambda>p. \<not> isForeground p) (spec_woken (waitQueue q))))\<rparr>)
   \<and> wakeUpProcesses (q\<lparr>waitQueue := []\<rparr>) = q\<lparr>waitQueue := []\<rparr>"
proof -
  have "tick_in_range q \<longrightarrow> wakeUpProcesses q = tick_wake_spec q"
    by (simp add: wakeUpProcesses_closed tick_closed_in_range)
  moreover have "wakeUpProcesses (q\<lparr>waitQueue := []\<rparr>) = q\<lparr>waitQueue := []\<rparr>"
    by (simp add: wakeUpProcesses_closed tick_closed_def woken_def stay_def)
  ultimately show ?thesis by (simp add: tick_wake_spec_def)
qed

theorem wakeUpProcesses_tick_witness:
  "tick_in_range \<lparr>fgProcesses = [email], bgProcesses = [],
        waitQueue = [(2, alarm\<lparr>remainingTime := 0\<rparr>), (3, todo\<lparr>remainingTime := 1\<rparr>),
                     (5, (mk_Process 5 False ''music player'')\<lparr>remainingTime := 7\<rparr>)],
        processCount = 4, bgCount = 0\<rparr>
   \<and> wakeUpProcesses \<lparr>fgProcesses = [email], bgProcesses = [],
        waitQueue = [(2, alarm\<lparr>remainingTime := 0\<rparr>), (3, todo\<lparr>remainingTime := 1\<rparr>),
                     (5, (mk_Process 5 False ''music player'')\<lparr>remainingTime := 7\<rparr>)],
        processCount = 4, bgCount = 0\<rparr>
       = \<lparr>fgProcesses = [email, alarm\<lparr>remainingTime := - 1\<rparr>],
          bgProcesses = [todo\<lparr>remainingTime := 0\<rparr>],
          waitQueue = [(5, (mk_Process 5 False ''music player'')\<lparr>remainingTime := 6\<rparr>)],
          processCount = 4, bgCount = 1\<rparr>"
  using wakeUpProcesses_tick [of "\<lparr>fgProcesses = [email], bgProcesses = [],
        waitQueue = [(2, alarm\<lparr>remainingTime := 0\<rparr>), (3, todo\<lparr>remainingTime := 1\<rparr>),
                     (5, (mk_Process 5 False ''music player'')\<lparr>remainingTime := 7\<rparr>)],
        processCount = 4, bgCount = 0\<rparr>"]
  by (simp add: tick_in_range_def spec_woken_def spec_stay_def spec_tick_entry_def
      INT_MIN_def INT_MAX_def alarm_def todo_def email_def mk_Process_def)

section \<open>The snapshot\<close>

lemma print_ready_concat:
  "print_ready ps out = out @ concat (map (\<lambda>p. ''['' @ toString p @ ''] '') ps)"
  by (induction ps arbitrary: out) simp_all

lemma print_wait_concat:
  "print_wait m out =
     out @ concat (map (\<lambda>e. ''['' @ toString (snd e) @ '': ''
                             @ show_int (remainingTime (snd e)) @ ''s] '') m)"
  by (induction m arbitrary: out) simp_all

lemma toString_label: "toString p = spec_label p"
  by (simp add: toString_def spec_label_def Let_def)

lemma spec_separator_literal: "spec_separator = ''---------------------------''"
  by (simp add: spec_separator_def numeral_eq_Suc)

text \<open>
  Claim C9. For every queue state, \<open>printQueue\<close> appends to the stream exactly the
  layout of the specification: the line \<open>Running: [nB]\<close> with the background counter,
  a separator of 27 dashes, the line \<open>DQ: (bottom)\<close> with the background processes in
  list order, the line \<open>P =>\<close> with the foreground processes in list order and
  \<open>(top)\<close> at its end, a separator, the line \<open>WQ:\<close> with the entries of the wait map
  in the order of the map as \<open>[label: ts]\<close>, and the closing line of three dots; a
  label is the id, then F or B, then a star exactly for a promoted process.
\<close>

theorem printQueue_layout:
  "snd (printQueue q out) = out @ spec_snapshot q"
  by (simp add: printQueue_def Let_def spec_snapshot_def spec_lines_def spec_separator_literal
      print_ready_concat print_wait_concat toString_label)

text \<open>
  Claim C10. \<open>printQueue\<close> does not modify the queue: the lists, the wait map, both
  counters and so every field of every process are after the call what they were before.
\<close>

theorem printQueue_frame:
  "fst (printQueue q out) = q"
  by (simp add: printQueue_def Let_def)

section \<open>simulateSleep in closed form\<close>

lemma map_assign_twice: "map_assign k v' (map_assign k v m) = map_assign k v' m"
  by (induction m) auto

lemma simulateSleep_fg:
  "find_if (\<lambda>p. proc_id p = pid) (fgProcesses q) = Some i \<Longrightarrow>
   simulateSleep pid s q =
     Inr (q\<lparr>waitQueue := map_assign pid ((fgProcesses q ! i)\<lparr>remainingTime := s\<rparr>) (waitQueue q),
           fgProcesses := erase i (fgProcesses q)\<rparr>)"
  by (simp add: simulateSleep_def move_to_wait_def Let_def map_assign_lookup map_assign_twice)

lemma simulateSleep_bg:
  "find_if (\<lambda>p. proc_id p = pid) (fgProcesses q) = None \<Longrightarrow>
   find_if (\<lambda>p. proc_id p = pid) (bgProcesses q) = Some i \<Longrightarrow>
   simulateSleep pid s q =
     Inr (q\<lparr>waitQueue := map_assign pid ((bgProcesses q ! i)\<lparr>remainingTime := s\<rparr>) (waitQueue q),
           bgProcesses := erase i (bgProcesses q),
           bgCount := bgCount q - 1\<rparr>)"
  by (simp add: simulateSleep_def move_to_wait_def Let_def map_assign_lookup map_assign_twice)

lemma in_ready_iff:
  "in_ready pid q \<longleftrightarrow>
     find_if (\<lambda>p. proc_id p = pid) (fgProcesses q) \<noteq> None
     \<or> find_if (\<lambda>p. proc_id p = pid) (bgProcesses q) \<noteq> None"
  by (auto simp: in_ready_def ready_process_def split: option.splits)

lemma simulateSleep_not_ready:
  "\<not> in_ready pid q \<Longrightarrow>
   simulateSleep pid s q =
     (case map_of (waitQueue q) pid of
        None \<Rightarrow> Inl NullDereference
      | Some p \<Rightarrow> Inr (q\<lparr>waitQueue := map_assign pid (p\<lparr>remainingTime := s\<rparr>) (waitQueue q)\<rparr>))"
  by (simp add: simulateSleep_def move_to_wait_def Let_def in_ready_iff)

lemma simulateSleep_ready:
  "in_ready pid q \<Longrightarrow> \<exists>q'. simulateSleep pid s q = Inr q'"
  by (cases "find_if (\<lambda>p. proc_id p = pid) (fgProcesses q)")
     (auto simp: in_ready_iff simulateSleep_fg simulateSleep_bg)

section \<open>Every process in the list of its class\<close>

lemma list_all_erase: "list_all P xs \<Longrightarrow> list_all P (erase i xs)"
  using set_erase[of i xs] by (auto simp: list_all_iff)

lemma class_ok_enqueue: "class_ok q \<Longrightarrow> class_ok (enqueue p q)"
  by (simp add: class_ok_def enqueue_def Let_def)

lemma class_ok_simulateSleep:
  "class_ok q \<Longrightarrow> simulateSleep pid s q = Inr q' \<Longrightarrow> class_ok q'"
proof (cases "find_if (\<lambda>p. proc_id p = pid) (fgProcesses q)")
  case None
  assume a: "class_ok q" "simulateSleep pid s q = Inr q'"
  show ?thesis
  proof (cases "find_if (\<lambda>p. proc_id p = pid) (bgProcesses q)")
    case n: None
    then have "\<not> in_ready pid q" using None by (simp add: in_ready_iff)
    then show ?thesis using a
      by (auto simp: simulateSleep_not_ready class_ok_def split: option.splits)
  next
    case (Some i)
    then show ?thesis using a None
      by (auto simp: simulateSleep_bg class_ok_def list_all_erase)
  qed
next
  case (Some i)
  assume a: "class_ok q" "simulateSleep pid s q = Inr q'"
  then show ?thesis using Some
    by (auto simp: simulateSleep_fg class_ok_def list_all_erase)
qed

lemma class_ok_wakeUpProcesses: "class_ok q \<Longrightarrow> class_ok (wakeUpProcesses q)"
  by (auto simp: wakeUpProcesses_closed tick_closed_def class_ok_def list_all_iff)

lemma class_ok_exec:
  "class_ok (fst w) \<Longrightarrow> exec_call c w = Inr w' \<Longrightarrow> class_ok (fst w')"
proof (cases w)
  case (Pair q out)
  assume a: "class_ok (fst w)" "exec_call c w = Inr w'"
  show ?thesis
  proof (cases c)
    case (Enqueue p)
    then show ?thesis using a Pair by (auto simp: class_ok_enqueue)
  next
    case (SimulateSleep pid s)
    then show ?thesis using a Pair
      by (auto split: sum.splits dest: class_ok_simulateSleep)
  next
    case WakeUpProcesses
    then show ?thesis using a Pair by (auto simp: class_ok_wakeUpProcesses)
  next
    case PrintQueue
    then show ?thesis using a Pair by (auto simp: printQueue_def Let_def)
  next
    case (SleepFor n)
    then show ?thesis using a Pair by auto
  qed
qed

lemma class_ok_run:
  "class_ok (fst w) \<Longrightarrow> run_calls cs w = Inr w' \<Longrightarrow> class_ok (fst w')"
proof (induction cs arbitrary: w)
  case Nil
  then show ?case by simp
next
  case (Cons c cs)
  then show ?case
    by (auto split: sum.splits dest: class_ok_exec)
qed

lemma simulateSleep_wait:
  "simulateSleep pid s q = Inr q' \<Longrightarrow>
   \<exists>p. waitQueue q' = map_assign pid (p\<lparr>remainingTime := s\<rparr>) (waitQueue q)"
proof (cases "find_if (\<lambda>p. proc_id p = pid) (fgProcesses q)")
  case None
  assume a: "simulateSleep pid s q = Inr q'"
  show ?thesis
  proof (cases "find_if (\<lambda>p. proc_id p = pid) (bgProcesses q)")
    case n: None
    then have "\<not> in_ready pid q" using None by (simp add: in_ready_iff)
    then show ?thesis using a
      by (auto simp: simulateSleep_not_ready split: option.splits)
  next
    case (Some i)
    then show ?thesis using a None by (auto simp: simulateSleep_bg)
  qed
next
  case (Some i)
  assume a: "simulateSleep pid s q = Inr q'"
  then show ?thesis using Some by (auto simp: simulateSleep_fg)
qed

section \<open>Counters and ids\<close>

lemma find_if_id_in_set:
  "find_if (\<lambda>p. proc_id p = pid) xs = Some i \<Longrightarrow> pid \<in> set (map proc_id xs)"
  by (auto dest!: find_if_Some)

lemma held_ids_sleep_fg:
  assumes f: "find_if (\<lambda>p. proc_id p = pid) (fgProcesses q) = Some i"
    and new: "pid \<notin> set (map fst (waitQueue q))"
  shows "mset (held_ids (q\<lparr>waitQueue := map_assign pid v (waitQueue q),
                          fgProcesses := erase i (fgProcesses q)\<rparr>)) = mset (held_ids q)"
proof -
  from find_if_Some[OF f] have i: "i < length (fgProcesses q)" and p: "proc_id (fgProcesses q ! i) = pid"
    by simp_all
  have "add_mset (map proc_id (fgProcesses q) ! i) (mset (erase i (map proc_id (fgProcesses q))))
          = mset (map proc_id (fgProcesses q))"
    using i by (intro mset_erase) simp
  then have "add_mset pid (mset (map proc_id (erase i (fgProcesses q)))) = mset (map proc_id (fgProcesses q))"
    using i p by (simp add: map_erase)
  then show ?thesis
    using map_assign_keys_new[OF new, of v]
    by (simp add: held_ids_def)
qed

lemma held_ids_sleep_bg:
  assumes f: "find_if (\<lambda>p. proc_id p = pid) (bgProcesses q) = Some i"
    and new: "pid \<notin> set (map fst (waitQueue q))"
  shows "mset (held_ids (q\<lparr>waitQueue := map_assign pid v (waitQueue q),
                          bgProcesses := erase i (bgProcesses q),
                          bgCount := c\<rparr>)) = mset (held_ids q)"
proof -
  from find_if_Some[OF f] have i: "i < length (bgProcesses q)" and p: "proc_id (bgProcesses q ! i) = pid"
    by simp_all
  have "add_mset (map proc_id (bgProcesses q) ! i) (mset (erase i (map proc_id (bgProcesses q))))
          = mset (map proc_id (bgProcesses q))"
    using i by (intro mset_erase) simp
  then have "add_mset pid (mset (map proc_id (erase i (bgProcesses q)))) = mset (map proc_id (bgProcesses q))"
    using i p by (simp add: map_erase)
  then show ?thesis
    using map_assign_keys_new[OF new, of v]
    by (simp add: held_ids_def)
qed

lemma keys_match_assign:
  "list_all (\<lambda>e. proc_id (snd e) = fst e) m \<Longrightarrow> proc_id v = k \<Longrightarrow>
   list_all (\<lambda>e. proc_id (snd e) = fst e) (map_assign k v m)"
  using map_assign_entries[of k v m] by (auto simp: list_all_iff)

lemma ready_not_waiting:
  "distinct (held_ids q) \<Longrightarrow> in_ready pid q \<Longrightarrow> pid \<notin> set (map fst (waitQueue q))"
proof -
  assume d: "distinct (held_ids q)" and r: "in_ready pid q"
  have "pid \<in> set (map proc_id (fgProcesses q)) \<or> pid \<in> set (map proc_id (bgProcesses q))"
    using r by (auto simp: in_ready_iff dest: find_if_id_in_set)
  moreover have "set (map proc_id (fgProcesses q)) \<inter> set (map fst (waitQueue q)) = {}"
    and "set (map proc_id (bgProcesses q)) \<inter> set (map fst (waitQueue q)) = {}"
    using d by (simp_all add: held_ids_def Int_Un_distrib)
  ultimately show ?thesis by blast
qed

lemma inv_simulateSleep:
  assumes ids: "ids_ok q" and cnt: "counts_ok q" and rdy: "in_ready pid q"
    and sl: "simulateSleep pid s q = Inr q'"
  shows "ids_ok q' \<and> counts_ok q'"
proof -
  have new: "pid \<notin> set (map fst (waitQueue q))"
    using ids rdy ready_not_waiting[of q pid] by (simp add: ids_ok_def)
  show ?thesis
  proof (cases "find_if (\<lambda>p. proc_id p = pid) (fgProcesses q)")
    case (Some i)
    let ?v = "(fgProcesses q ! i)\<lparr>remainingTime := s\<rparr>"
    have q': "q' = q\<lparr>waitQueue := map_assign pid ?v (waitQueue q), fgProcesses := erase i (fgProcesses q)\<rparr>"
      using sl by (simp add: simulateSleep_fg[OF Some])
    from find_if_Some[OF Some] have i: "i < length (fgProcesses q)" and p: "proc_id ?v = pid"
      by simp_all
    have "mset (held_ids q') = mset (held_ids q)"
      unfolding q' by (rule held_ids_sleep_fg[OF Some new])
    then have d: "distinct (held_ids q')"
      using ids by (metis ids_ok_def mset_eq_imp_distinct_iff)
    have w: "map_wf (waitQueue q')" using ids by (simp add: q' ids_ok_def map_assign_wf)
    have k: "list_all (\<lambda>e. proc_id (snd e) = fst e) (waitQueue q')"
      using ids p by (simp add: q' ids_ok_def keys_match_assign)
    have c: "counts_ok q'"
      using cnt i by (simp add: q' counts_ok_def map_assign_length_new[OF new] length_erase)
    show ?thesis using d w k c by (simp add: ids_ok_def)
  next
    case None
    then obtain i where Some: "find_if (\<lambda>p. proc_id p = pid) (bgProcesses q) = Some i"
      using rdy by (auto simp: in_ready_iff)
    let ?v = "(bgProcesses q ! i)\<lparr>remainingTime := s\<rparr>"
    have q': "q' = q\<lparr>waitQueue := map_assign pid ?v (waitQueue q), bgProcesses := erase i (bgProcesses q),
                     bgCount := bgCount q - 1\<rparr>"
      using sl by (simp add: simulateSleep_bg[OF None Some])
    from find_if_Some[OF Some] have i: "i < length (bgProcesses q)" and p: "proc_id ?v = pid"
      by simp_all
    have "mset (held_ids q') = mset (held_ids q)"
      unfolding q' by (rule held_ids_sleep_bg[OF Some new])
    then have d: "distinct (held_ids q')"
      using ids by (metis ids_ok_def mset_eq_imp_distinct_iff)
    have w: "map_wf (waitQueue q')" using ids by (simp add: q' ids_ok_def map_assign_wf)
    have k: "list_all (\<lambda>e. proc_id (snd e) = fst e) (waitQueue q')"
      using ids p by (simp add: q' ids_ok_def keys_match_assign)
    have c: "counts_ok q'"
      using cnt i by (simp add: q' counts_ok_def map_assign_length_new[OF new] length_erase)
    show ?thesis using d w k c by (simp add: ids_ok_def)
  qed
qed

lemma inv_enqueue:
  assumes ids: "ids_ok q" and cnt: "counts_ok q" and fresh: "proc_id p \<notin> set (held_ids q)"
  shows "ids_ok (enqueue p q) \<and> counts_ok (enqueue p q)"
  using assms by (auto simp: ids_ok_def counts_ok_def enqueue_def Let_def held_ids_def)

lemma woken_stay_length: "length (woken m) + length (stay m) = length m"
  by (induction m) (auto simp: woken_def stay_def)

lemma woken_split_length:
  "length (filter isForeground (woken m)) + length (filter (\<lambda>p. \<not> isForeground p) (woken m))
     + length (stay m) = length m"
  using woken_stay_length[of m] sum_length_filter_compl[of isForeground "woken m"] by simp

lemma woken_stay_ids:
  "list_all (\<lambda>e. proc_id (snd e) = fst e) m \<Longrightarrow>
   mset (map proc_id (filter isForeground (woken m)))
     + mset (map proc_id (filter (\<lambda>p. \<not> isForeground p) (woken m)))
     + mset (map fst (stay m)) = mset (map fst m)"
  by (induction m) (auto simp: woken_def stay_def tick_entry_def)

lemma stay_wf: "map_wf m \<Longrightarrow> map_wf (stay m)"
  by (simp add: map_wf_def stay_def sorted_wrt_map sorted_wrt_filter tick_entry_def)

lemma stay_keys_match:
  "list_all (\<lambda>e. proc_id (snd e) = fst e) m \<Longrightarrow> list_all (\<lambda>e. proc_id (snd e) = fst e) (stay m)"
  by (auto simp: list_all_iff stay_def tick_entry_def)

lemma inv_wakeUpProcesses:
  assumes ids: "ids_ok q" and cnt: "counts_ok q"
  shows "ids_ok (wakeUpProcesses q) \<and> counts_ok (wakeUpProcesses q)"
proof -
  let ?m = "waitQueue q"
  have km: "list_all (\<lambda>e. proc_id (snd e) = fst e) ?m" using ids by (simp add: ids_ok_def)
  have "mset (held_ids (wakeUpProcesses q)) = mset (held_ids q)"
    using woken_stay_ids[OF km]
    by (simp add: wakeUpProcesses_closed tick_closed_def held_ids_def ac_simps)
  then have d: "distinct (held_ids (wakeUpProcesses q))"
    using ids by (metis ids_ok_def mset_eq_imp_distinct_iff)
  have w: "map_wf (waitQueue (wakeUpProcesses q))"
    using ids by (simp add: wakeUpProcesses_closed tick_closed_def ids_ok_def stay_wf)
  have k: "list_all (\<lambda>e. proc_id (snd e) = fst e) (waitQueue (wakeUpProcesses q))"
    using km by (simp add: wakeUpProcesses_closed tick_closed_def stay_keys_match)
  have c: "counts_ok (wakeUpProcesses q)"
    using cnt woken_split_length[of ?m]
    by (simp add: wakeUpProcesses_closed tick_closed_def counts_ok_def)
  show ?thesis using d w k c by (simp add: ids_ok_def)
qed

lemma inv_exec:
  assumes inv: "ids_ok (fst w) \<and> counts_ok (fst w)"
    and rdy: "case c of SimulateSleep pid seconds \<Rightarrow> in_ready pid (fst w) | _ \<Rightarrow> True"
    and fresh: "case c of Enqueue p \<Rightarrow> proc_id p \<notin> set (held_ids (fst w)) | _ \<Rightarrow> True"
    and ex: "exec_call c w = Inr w'"
  shows "ids_ok (fst w') \<and> counts_ok (fst w')"
proof (cases w)
  case (Pair q out)
  show ?thesis
  proof (cases c)
    case (Enqueue p)
    then show ?thesis using inv fresh ex Pair inv_enqueue[of q p] by auto
  next
    case (SimulateSleep pid s)
    then show ?thesis using inv rdy ex Pair inv_simulateSleep[of q pid s]
      by (auto split: sum.splits)
  next
    case WakeUpProcesses
    then show ?thesis using inv ex Pair inv_wakeUpProcesses[of q] by auto
  next
    case PrintQueue
    then show ?thesis using inv ex Pair by (auto simp: printQueue_def Let_def)
  next
    case (SleepFor n)
    then show ?thesis using inv ex Pair by auto
  qed
qed

lemma inv_run:
  "ids_ok (fst w) \<and> counts_ok (fst w) \<Longrightarrow> sleeps_target_ready cs w \<Longrightarrow> enqueues_fresh cs w \<Longrightarrow>
   run_calls cs w = Inr w' \<Longrightarrow> ids_ok (fst w') \<and> counts_ok (fst w')"
proof (induction cs arbitrary: w)
  case Nil
  then show ?case by simp
next
  case (Cons c cs)
  from Cons.prems(4) obtain w1 where ex: "exec_call c w = Inr w1" and run: "run_calls cs w1 = Inr w'"
    by (auto split: sum.splits)
  have i1: "ids_ok (fst w1) \<and> counts_ok (fst w1)"
    using inv_exec[OF Cons.prems(1) _ _ ex] Cons.prems(2,3) by simp
  show ?case
    using Cons.IH[OF i1 _ _ run] Cons.prems(2,3) ex by simp
qed

lemma bgCount_simulateSleep:
  assumes ok: "bgCount q = int (length (bgProcesses q))"
    and sl: "simulateSleep pid s q = Inr q'"
  shows "bgCount q' = int (length (bgProcesses q'))"
proof (cases "find_if (\<lambda>p. proc_id p = pid) (fgProcesses q)")
  case None
  show ?thesis
  proof (cases "find_if (\<lambda>p. proc_id p = pid) (bgProcesses q)")
    case n: None
    then have "\<not> in_ready pid q" using None by (simp add: in_ready_iff)
    then show ?thesis using ok sl
      by (auto simp: simulateSleep_not_ready split: option.splits)
  next
    case (Some i)
    from find_if_Some[OF Some] have "i < length (bgProcesses q)" by simp
    then show ?thesis using ok sl None Some
      by (auto simp: simulateSleep_bg length_erase)
  qed
next
  case (Some i)
  then show ?thesis using ok sl by (auto simp: simulateSleep_fg)
qed

lemma bgCount_exec:
  assumes ok: "bgCount (fst w) = int (length (bgProcesses (fst w)))"
    and ex: "exec_call c w = Inr w'"
  shows "bgCount (fst w') = int (length (bgProcesses (fst w')))"
proof (cases w)
  case (Pair q out)
  show ?thesis
  proof (cases c)
    case (Enqueue p)
    then show ?thesis using ok ex Pair by (auto simp: enqueue_def Let_def)
  next
    case (SimulateSleep pid s)
    then show ?thesis using ok ex Pair bgCount_simulateSleep[of q pid s]
      by (auto split: sum.splits)
  next
    case WakeUpProcesses
    then show ?thesis using ok ex Pair
      by (auto simp: wakeUpProcesses_closed tick_closed_def)
  next
    case PrintQueue
    then show ?thesis using ok ex Pair by (auto simp: printQueue_def Let_def)
  next
    case (SleepFor n)
    then show ?thesis using ok ex Pair by auto
  qed
qed

lemma bgCount_run:
  "bgCount (fst w) = int (length (bgProcesses (fst w))) \<Longrightarrow> run_calls cs w = Inr w' \<Longrightarrow>
   bgCount (fst w') = int (length (bgProcesses (fst w')))"
proof (induction cs arbitrary: w)
  case Nil
  then show ?case by simp
next
  case (Cons c cs)
  then show ?case
    by (auto split: sum.splits dest: bgCount_exec)
qed

lemma exec_call_succeeds:
  assumes "case c of SimulateSleep pid seconds \<Rightarrow> in_ready pid (fst w) | _ \<Rightarrow> True"
  shows "\<exists>w'. exec_call c w = Inr w'"
proof (cases w)
  case (Pair q out)
  show ?thesis
  proof (cases c)
    case (SimulateSleep pid s)
    then have "in_ready pid q" using assms Pair by simp
    then obtain q' where "simulateSleep pid s q = Inr q'"
      using simulateSleep_ready by blast
    then show ?thesis using SimulateSleep Pair by simp
  qed (simp_all add: Pair)
qed

lemma run_calls_succeeds:
  "sleeps_target_ready cs w \<Longrightarrow> \<exists>w'. run_calls cs w = Inr w'"
proof (induction cs arbitrary: w)
  case Nil
  show ?case by simp
next
  case (Cons c cs)
  then have "case c of SimulateSleep pid seconds \<Rightarrow> in_ready pid (fst w) | _ \<Rightarrow> True"
    by simp
  then obtain w1 where ex: "exec_call c w = Inr w1"
    using exec_call_succeeds by blast
  then have "sleeps_target_ready cs w1" using Cons.prems by simp
  then show ?case using Cons.IH ex by simp
qed

lemma inv_empty: "ids_ok empty_queue \<and> counts_ok empty_queue"
  by (simp add: ids_ok_def counts_ok_def empty_queue_def held_ids_def map_wf_def)

section \<open>Evaluating concrete runs\<close>

lemmas eval_defs = enqueue_def simulateSleep_def move_to_wait_def mk_Process_def erase_def Let_def
  empty_queue_def wakeUpProcesses_closed tick_closed_def woken_def stay_def tick_entry_def
  in_ready_def ready_process_def wait_positive_def counts_ok_def class_ok_def held_ids_def alarm_def todo_def email_def
  later_expiring_def native_list_def map_wf_def decrement_def INT_MIN_def INT_MAX_def

section \<open>simulateSleep outside the ready lists\<close>

text \<open>
  Claim C1 says that \<open>simulateSleep\<close> for an id in neither ready list leaves the queue
  as it is. The code does not: its last statement runs in this case too. For an id the
  queue does not know (9 on the empty queue) it dereferences the null pointer that
  \<open>operator[]\<close> has just inserted; for an id that is waiting (process 2, with
  10 ticks left) it overwrites the remaining time (with 3).
\<close>

theorem simulateSleep_outside_ready_lists:
  "\<not> in_ready 9 empty_queue
   \<and> simulateSleep 9 3 empty_queue = Inl NullDereference
   \<and> \<not> in_ready 2 \<lparr>fgProcesses = [], bgProcesses = [],
               waitQueue = [(2, alarm\<lparr>remainingTime := 10\<rparr>)],
               processCount = 1, bgCount = 0\<rparr>
   \<and> simulateSleep 2 3 \<lparr>fgProcesses = [], bgProcesses = [],
               waitQueue = [(2, alarm\<lparr>remainingTime := 10\<rparr>)],
               processCount = 1, bgCount = 0\<rparr>
      = Inr \<lparr>fgProcesses = [], bgProcesses = [],
               waitQueue = [(2, alarm\<lparr>remainingTime := 3\<rparr>)],
               processCount = 1, bgCount = 0\<rparr>"
  by (simp add: eval_defs)

section \<open>Remaining times in the wait map\<close>

lemma wait_positive_simulateSleep:
  assumes "wait_positive q" "0 < s" "simulateSleep pid s q = Inr q'"
  shows "wait_positive q'"
proof -
  obtain p where w: "waitQueue q' = map_assign pid (p\<lparr>remainingTime := s\<rparr>) (waitQueue q)"
    using simulateSleep_wait[OF assms(3)] by blast
  show ?thesis
    using assms(1,2) map_assign_entries[of pid "p\<lparr>remainingTime := s\<rparr>" "waitQueue q"]
    by (auto simp: wait_positive_def list_all_iff w)
qed

lemma wait_positive_wakeUpProcesses: "wait_positive (wakeUpProcesses q)"
  by (simp add: wait_positive_def wakeUpProcesses_closed tick_closed_def stay_def list_all_iff)

text \<open>
  Claim C3, as stated, fails: \<open>simulateSleep\<close> takes any number of seconds, and after
  \<open>simulateSleep 2 0\<close> process 2 is in the wait map with remaining time 0.
\<close>

theorem sleep_zero_counterexample:
  "simulateSleep 2 0 (enqueue alarm empty_queue)
     = Inr \<lparr>fgProcesses = [], bgProcesses = [],
            waitQueue = [(2, alarm\<lparr>remainingTime := 0\<rparr>)],
            processCount = 1, bgCount = 0\<rparr>
   \<and> \<not> wait_positive \<lparr>fgProcesses = [], bgProcesses = [],
            waitQueue = [(2, alarm\<lparr>remainingTime := 0\<rparr>)],
            processCount = 1, bgCount = 0\<rparr>"
  by (simp add: eval_defs)

text \<open>
  Claim C3, amended. Immediately after \<open>simulateSleep\<close> with a positive number of
  seconds, on a queue whose waiting processes all have a positive remaining time, every
  process in the wait map has a positive remaining time. A remaining time of 0 or less
  comes from a sleep of 0 or fewer seconds, or from the decrement inside
  \<open>wakeUpProcesses\<close>; in both cases the process has left the wait map when
  \<open>wakeUpProcesses\<close> returns: after that call every remaining time is positive.
\<close>

theorem sleep_positive_wait:
  "(wait_positive q \<and> 0 < seconds \<and> simulateSleep pid seconds q = Inr q' \<longrightarrow> wait_positive q')
   \<and> wait_positive (wakeUpProcesses q0)"
  using wait_positive_simulateSleep wait_positive_wakeUpProcesses by blast

theorem sleep_positive_wait_witness:
  "wait_positive (enqueue alarm empty_queue) \<and> (0::int) < 10
   \<and> simulateSleep 2 10 (enqueue alarm empty_queue)
        = Inr \<lparr>fgProcesses = [], bgProcesses = [],
               waitQueue = [(2, alarm\<lparr>remainingTime := 10\<rparr>)],
               processCount = 1, bgCount = 0\<rparr>
   \<and> wait_positive \<lparr>fgProcesses = [], bgProcesses = [],
               waitQueue = [(2, alarm\<lparr>remainingTime := 10\<rparr>)],
               processCount = 1, bgCount = 0\<rparr>
   \<and> wait_positive (wakeUpProcesses \<lparr>fgProcesses = [], bgProcesses = [],
               waitQueue = [(2, alarm\<lparr>remainingTime := 0\<rparr>)],
               processCount = 1, bgCount = 0\<rparr>)"
  using sleep_positive_wait [of "enqueue alarm empty_queue" 10 2
      "\<lparr>fgProcesses = [], bgProcesses = [],
               waitQueue = [(2, alarm\<lparr>remainingTime := 10\<rparr>)],
               processCount = 1, bgCount = 0\<rparr>"
      "\<lparr>fgProcesses = [], bgProcesses = [],
               waitQueue = [(2, alarm\<lparr>remainingTime := 0\<rparr>)],
               processCount = 1, bgCount = 0\<rparr>"]
  by (simp add: eval_defs)

section \<open>The counters on reachable states\<close>

text \<open>
  Claim C2, as stated, fails. \<open>enqueue\<close> does not look at the id it is given. Two
  processes with id 2 are enqueued and both sent to sleep, each sleep finding its process
  in the foreground list: the second assignment to \<open>waitQueue[2]\<close> replaces the first
  process, and the counter says 2 where the three containers hold one process.
\<close>

theorem duplicate_id_counterexample:
  "sleeps_target_ready
     [Enqueue alarm, Enqueue (mk_Process 2 True ''todo list''), SimulateSleep 2 5, SimulateSleep 2 5]
     (empty_queue, [])
   \<and> run_calls
     [Enqueue alarm, Enqueue (mk_Process 2 True ''todo list''), SimulateSleep 2 5, SimulateSleep 2 5]
     (empty_queue, [])
     = Inr (\<lparr>fgProcesses = [], bgProcesses = [],
             waitQueue = [(2, (mk_Process 2 True ''todo list'')\<lparr>remainingTime := 5\<rparr>)],
             processCount = 2, bgCount = 0\<rparr>, [])
   \<and> processCount \<lparr>fgProcesses = [], bgProcesses = [],
             waitQueue = [(2, (mk_Process 2 True ''todo list'')\<lparr>remainingTime := 5\<rparr>)],
             processCount = 2, bgCount = 0\<rparr>
       \<noteq> int (length (fgProcesses \<lparr>fgProcesses = [], bgProcesses = [],
             waitQueue = [(2, (mk_Process 2 True ''todo list'')\<lparr>remainingTime := 5\<rparr>)],
             processCount = 2, bgCount = 0\<rparr>)
            + length (bgProcesses \<lparr>fgProcesses = [], bgProcesses = [],
             waitQueue = [(2, (mk_Process 2 True ''todo list'')\<lparr>remainingTime := 5\<rparr>)],
             processCount = 2, bgCount = 0\<rparr>)
            + length (waitQueue \<lparr>fgProcesses = [], bgProcesses = [],
             waitQueue = [(2, (mk_Process 2 True ''todo list'')\<lparr>remainingTime := 5\<rparr>)],
             processCount = 2, bgCount = 0\<rparr>))"
  by (simp add: eval_defs)

text \<open>
  Claim C2, amended. In every state reached from the empty queue by a run of calls,
  \<open>bgCount\<close> is the length of the background list. When, in addition, no \<open>enqueue\<close>
  of the run brings an id the queue holds already and every \<open>simulateSleep\<close> names a
  process that is in a ready list, \<open>processCount\<close> is the number of processes in the
  two lists and the wait map together. A run whose sleeps all name a process in a ready
  list does not fail.
\<close>

theorem counts_on_fresh_runs:
  "(run_calls cs (empty_queue, out0) = Inr (q, out)
      \<longrightarrow> bgCount q = int (length (bgProcesses q)))
   \<and> (sleeps_target_ready cs (empty_queue, out0) \<and> enqueues_fresh cs (empty_queue, out0)
        \<and> run_calls cs (empty_queue, out0) = Inr (q, out)
      \<longrightarrow> processCount q
            = int (length (fgProcesses q) + length (bgProcesses q) + length (waitQueue q)))
   \<and> (sleeps_target_ready cs (empty_queue, out0)
      \<longrightarrow> (\<exists>w. run_calls cs (empty_queue, out0) = Inr w))"
proof -
  have "bgCount (fst (empty_queue, out0)) = int (length (bgProcesses (fst (empty_queue, out0))))"
    by (simp add: empty_queue_def)
  then have bg: "run_calls cs (empty_queue, out0) = Inr (q, out)
      \<longrightarrow> bgCount q = int (length (bgProcesses q))"
    using bgCount_run[of "(empty_queue, out0)" cs "(q, out)"] by simp
  have "sleeps_target_ready cs (empty_queue, out0) \<and> enqueues_fresh cs (empty_queue, out0)
        \<and> run_calls cs (empty_queue, out0) = Inr (q, out) \<longrightarrow> counts_ok q"
    using inv_run[of "(empty_queue, out0)" cs "(q, out)"] inv_empty by simp
  then show ?thesis using bg run_calls_succeeds[of cs "(empty_queue, out0)"]
    by (simp add: counts_ok_def)
qed

theorem counts_on_fresh_runs_witness:
  "sleeps_target_ready [Enqueue alarm, Enqueue todo, SimulateSleep 2 5, WakeUpProcesses] (empty_queue, [])
   \<and> enqueues_fresh [Enqueue alarm, Enqueue todo, SimulateSleep 2 5, WakeUpProcesses] (empty_queue, [])
   \<and> run_calls [Enqueue alarm, Enqueue todo, SimulateSleep 2 5, WakeUpProcesses] (empty_queue, [])
       = Inr (\<lparr>fgProcesses = [], bgProcesses = [todo],
               waitQueue = [(2, alarm\<lparr>remainingTime := 4\<rparr>)],
               processCount = 2, bgCount = 1\<rparr>, [])
   \<and> processCount \<lparr>fgProcesses = [], bgProcesses = [todo],
               waitQueue = [(2, alarm\<lparr>remainingTime := 4\<rparr>)],
               processCount = 2, bgCount = 1\<rparr> = 2
   \<and> bgCount \<lparr>fgProcesses = [], bgProcesses = [todo],
               waitQueue = [(2, alarm\<lparr>remainingTime := 4\<rparr>)],
               processCount = 2, bgCount = 1\<rparr> = 1"
  using counts_on_fresh_runs [of "[Enqueue alarm, Enqueue todo, SimulateSleep 2 5, WakeUpProcesses]" "[]"
      "\<lparr>fgProcesses = [], bgProcesses = [todo],
               waitQueue = [(2, alarm\<lparr>remainingTime := 4\<rparr>)],
               processCount = 2, bgCount = 1\<rparr>" "[]"]
  by (simp add: eval_defs)

section \<open>The class of the listed processes\<close>

text \<open>
  Claim C8. In every state reached from the empty queue, every process of the foreground
  list is a foreground process and every process of the background list is not. Each of
  \<open>enqueue\<close>, \<open>simulateSleep\<close> and \<open>wakeUpProcesses\<close> keeps this, from any state;
  and \<open>wakeUpProcesses\<close> appends the woken foreground processes to the foreground list
  and the others to the background list.
\<close>

theorem class_ok_reachable:
  "(run_calls cs (empty_queue, out0) = Inr (q, out) \<longrightarrow> class_ok q)
   \<and> (class_ok q0 \<longrightarrow> class_ok (enqueue p q0))
   \<and> (class_ok q0 \<and> simulateSleep pid seconds q0 = Inr q1 \<longrightarrow> class_ok q1)
   \<and> (class_ok q0 \<longrightarrow> class_ok (wakeUpProcesses q0))
   \<and> fgProcesses (wakeUpProcesses q0)
       = fgProcesses q0 @ filter isForeground (woken (waitQueue q0))
   \<and> bgProcesses (wakeUpProcesses q0)
       = bgProcesses q0 @ filter (\<lambda>p. \<not> isForeground p) (woken (waitQueue q0))"
proof -
  have "class_ok (fst (empty_queue, out0))" by (simp add: class_ok_def empty_queue_def)
  then have "run_calls cs (empty_queue, out0) = Inr (q, out) \<longrightarrow> class_ok q"
    using class_ok_run[of "(empty_queue, out0)" cs "(q, out)"] by simp
  then show ?thesis
    using class_ok_enqueue class_ok_simulateSleep class_ok_wakeUpProcesses
    by (auto simp: wakeUpProcesses_closed tick_closed_def)
qed

theorem class_ok_reachable_witness:
  "run_calls [Enqueue alarm, Enqueue todo, SimulateSleep 2 5, WakeUpProcesses] (empty_queue, [])
     = Inr (\<lparr>fgProcesses = [], bgProcesses = [todo],
        waitQueue = [(2, alarm\<lparr>remainingTime := 4\<rparr>)],
        processCount = 2, bgCount = 1\<rparr>, [])
   \<and> class_ok \<lparr>fgProcesses = [], bgProcesses = [todo],
        waitQueue = [(2, alarm\<lparr>remainingTime := 4\<rparr>)],
        processCount = 2, bgCount = 1\<rparr>
   \<and> class_ok \<lparr>fgProcesses = [email], bgProcesses = [todo],
        waitQueue = [(2, alarm\<lparr>remainingTime := 1\<rparr>)],
        processCount = 3, bgCount = 1\<rparr>
   \<and> class_ok (enqueue alarm \<lparr>fgProcesses = [email], bgProcesses = [todo],
        waitQueue = [(2, alarm\<lparr>remainingTime := 1\<rparr>)],
        processCount = 3, bgCount = 1\<rparr>)
   \<and> simulateSleep 3 4 \<lparr>fgProcesses = [email], bgProcesses = [todo],
        waitQueue = [(2, alarm\<lparr>remainingTime := 1\<rparr>)],
        processCount = 3, bgCount = 1\<rparr>
       = Inr \<lparr>fgProcesses = [email], bgProcesses = [],
        waitQueue = [(2, alarm\<lparr>remainingTime := 1\<rparr>), (3, todo\<lparr>remainingTime := 4\<rparr>)],
        processCount = 3, bgCount = 0\<rparr>
   \<and> class_ok \<lparr>fgProcesses = [email], bgProcesses = [],
        waitQueue = [(2, alarm\<lparr>remainingTime := 1\<rparr>), (3, todo\<lparr>remainingTime := 4\<rparr>)],
        processCount = 3, bgCount = 0\<rparr>
   \<and> class_ok (wakeUpProcesses \<lparr>fgProcesses = [email], bgProcesses = [todo],
        waitQueue = [(2, alarm\<lparr>remainingTime := 1\<rparr>)],
        processCount = 3, bgCount = 1\<rparr>)
   \<and> fgProcesses (wakeUpProcesses \<lparr>fgProcesses = [email], bgProcesses = [todo],
        waitQueue = [(2, alarm\<lparr>remainingTime := 1\<rparr>)],
        processCount = 3, bgCount = 1\<rparr>) = [email, alarm\<lparr>remainingTime := 0\<rparr>]"
  using class_ok_reachable [of "[Enqueue alarm, Enqueue todo, SimulateSleep 2 5, WakeUpProcesses]" "[]"
      "\<lparr>fgProcesses = [], bgProcesses = [todo],
        waitQueue = [(2, alarm\<lparr>remainingTime := 4\<rparr>)],
        processCount = 2, bgCount = 1\<rparr>" "[]"
      "\<lparr>fgProcesses = [email], bgProcesses = [todo],
        waitQueue = [(2, alarm\<lparr>remainingTime := 1\<rparr>)],
        processCount = 3, bgCount = 1\<rparr>" alarm 3 4
      "\<lparr>fgProcesses = [email], bgProcesses = [],
        waitQueue = [(2, alarm\<lparr>remainingTime := 1\<rparr>), (3, todo\<lparr>remainingTime := 4\<rparr>)],
        processCount = 3, bgCount = 0\<rparr>"]
  by (simp add: eval_defs)

section \<open>A sleeping process, tick by tick\<close>

lemma stay_keys: "set (map fst (stay m)) \<subseteq> set (map fst m)"
  by (force simp: stay_def tick_entry_def)

lemma stay_lookup:
  "map_wf m \<Longrightarrow>
   map_of (stay m) k =
     (case map_of m k of
        None \<Rightarrow> None
      | Some p \<Rightarrow> if 0 < decrement (remainingTime p)
                  then Some (p\<lparr>remainingTime := decrement (remainingTime p)\<rparr>)
                  else None)"
proof (induction m)
  case Nil
  show ?case by (simp add: stay_def)
next
  case (Cons e m)
  obtain k' v' where e: "e = (k', v')" by (cases e)
  have wf: "map_wf m" and gt: "\<forall>x\<in>set (map fst m). k' < x"
    using Cons.prems by (auto simp: map_wf_def e)
  have st: "stay ((k', v') # m)
              = (if 0 < decrement (remainingTime v')
                 then [(k', v'\<lparr>remainingTime := decrement (remainingTime v')\<rparr>)] else [])
                @ stay m"
    by (simp add: stay_def tick_entry_def)
  show ?case
  proof (cases "k = k'")
    case True
    have "k' \<notin> set (map fst m)" using gt by auto
    then have "k \<notin> set (map fst (stay m))" using stay_keys[of m] True by blast
    then have "map_of (stay m) k = None" by (simp add: map_of_eq_None_iff)
    then show ?thesis using True by (simp add: st e)
  next
    case False
    then show ?thesis using Cons.IH[OF wf] by (simp add: st e)
  qed
qed

lemma map_of_split:
  "map_wf m \<Longrightarrow> map_of m k = Some v \<Longrightarrow>
   \<exists>m1 m2. m = m1 @ (k, v) # m2 \<and> (\<forall>e \<in> set m2. k < fst e)"
proof (induction m)
  case Nil
  then show ?case by simp
next
  case (Cons e m)
  obtain k' v' where e: "e = (k', v')" by (cases e)
  have wf: "map_wf m" and gt: "\<forall>x\<in>set m. k' < fst x"
    using Cons.prems by (auto simp: map_wf_def e)
  show ?case
  proof (cases "k = k'")
    case True
    then have "e # m = [] @ (k, v) # m" using Cons.prems(2) by (simp add: e)
    then show ?thesis using gt True by blast
  next
    case False
    then have "map_of m k = Some v" using Cons.prems(2) by (simp add: e)
    from Cons.IH[OF wf this] obtain m1 m2 where "m = m1 @ (k, v) # m2" "\<forall>e \<in> set m2. k < fst e"
      by blast
    then have "e # m = (e # m1) @ (k, v) # m2 \<and> (\<forall>e \<in> set m2. k < fst e)" by simp
    then show ?thesis by blast
  qed
qed

lemma woken_later_none:
  "\<forall>e \<in> set m. pid < fst e \<Longrightarrow> later_expiring pid p m = [] \<Longrightarrow>
   filter (\<lambda>x. isForeground x = isForeground p) (woken m) = []"
  by (induction m)
     (auto simp: later_expiring_def woken_def tick_entry_def decrement_def INT_MIN_def
           split: if_splits)

lemma later_expiring_suffix:
  "later_expiring pid p (m1 @ (pid, v) # m2) = [] \<Longrightarrow> later_expiring pid p m2 = []"
  by (simp add: later_expiring_def)

lemma native_tick:
  "native_list p (wakeUpProcesses q)
     = native_list p q @ filter (\<lambda>x. isForeground x = isForeground p) (woken (waitQueue q))"
  by (cases "isForeground p") (simp_all add: native_list_def wakeUpProcesses_closed tick_closed_def)

lemma tick_expiring:
  assumes wf: "map_wf (waitQueue q)"
    and w: "map_of (waitQueue q) pid = Some p1"
    and one: "remainingTime p1 = 1"
  shows "map_of (waitQueue (wakeUpProcesses q)) pid = None"
    and "p1\<lparr>remainingTime := 0\<rparr>
           \<in> set (filter (\<lambda>x. isForeground x = isForeground p1) (woken (waitQueue q)))"
    and "later_expiring pid p1 (waitQueue q) = [] \<Longrightarrow>
         last (native_list p1 (wakeUpProcesses q)) = p1\<lparr>remainingTime := 0\<rparr>"
proof -
  show "map_of (waitQueue (wakeUpProcesses q)) pid = None"
    using wf w one
    by (simp add: wakeUpProcesses_closed tick_closed_def stay_lookup decrement_positive)
  obtain m1 m2 where m: "waitQueue q = m1 @ (pid, p1) # m2" and gt: "\<forall>e \<in> set m2. pid < fst e"
    using map_of_split[OF wf w] by blast
  have wk: "woken (waitQueue q) = woken m1 @ [p1\<lparr>remainingTime := 0\<rparr>] @ woken m2"
    using one by (simp add: m woken_def tick_entry_def decrement_positive)
  show "p1\<lparr>remainingTime := 0\<rparr>
           \<in> set (filter (\<lambda>x. isForeground x = isForeground p1) (woken (waitQueue q)))"
    by (simp add: wk)
  assume le: "later_expiring pid p1 (waitQueue q) = []"
  have "filter (\<lambda>x. isForeground x = isForeground p1) (woken m2) = []"
    using woken_later_none[OF gt] later_expiring_suffix[of pid p1 m1 p1 m2] le m by simp
  then show "last (native_list p1 (wakeUpProcesses q)) = p1\<lparr>remainingTime := 0\<rparr>"
    by (simp add: native_tick wk)
qed

lemma simulateSleep_ready_process:
  assumes rp: "ready_process pid q = Some p" and wf: "map_wf (waitQueue q)"
  shows "\<exists>q'. simulateSleep pid s q = Inr q'
            \<and> map_wf (waitQueue q')
            \<and> map_of (waitQueue q') pid = Some (p\<lparr>remainingTime := s\<rparr>)"
proof (cases "find_if (\<lambda>p. proc_id p = pid) (fgProcesses q)")
  case None
  then obtain i where Some: "find_if (\<lambda>p. proc_id p = pid) (bgProcesses q) = Some i"
    and p: "p = bgProcesses q ! i"
    using rp by (auto simp: ready_process_def split: option.splits)
  show ?thesis
    using wf by (simp add: simulateSleep_bg[OF None Some] p map_assign_wf map_assign_lookup)
next
  case (Some i)
  then have p: "p = fgProcesses q ! i" using rp by (simp add: ready_process_def)
  show ?thesis
    using wf by (simp add: simulateSleep_fg[OF Some] p map_assign_wf map_assign_lookup)
qed

lemma in_set_erase: "x \<in> set xs \<Longrightarrow> x \<noteq> xs ! i \<Longrightarrow> x \<in> set (erase i xs)"
proof (cases "i < length xs")
  case True
  assume a: "x \<in> set xs" "x \<noteq> xs ! i"
  have "set_mset (add_mset (xs ! i) (mset (erase i xs))) = set_mset (mset xs)"
    using mset_erase[OF True] by simp
  then have "insert (xs ! i) (set (erase i xs)) = set xs" by simp
  then show ?thesis using a by blast
next
  case False
  assume "x \<in> set xs"
  then show ?thesis using False by (simp add: erase_def)
qed

lemma wf_exec:
  assumes wf: "map_wf (waitQueue (fst w))" and ex: "exec_call c w = Inr w'"
  shows "map_wf (waitQueue (fst w'))"
proof (cases w)
  case (Pair q out)
  show ?thesis
  proof (cases c)
    case (Enqueue p)
    then show ?thesis using wf ex Pair by (auto simp: enqueue_def Let_def)
  next
    case (SimulateSleep pid' s)
    then obtain q' where sl: "simulateSleep pid' s q = Inr q'" and w': "w' = (q', out)"
      using ex Pair by (auto split: sum.splits)
    from simulateSleep_wait[OF sl] show ?thesis
      using wf Pair w' by (auto simp: map_assign_wf)
  next
    case WakeUpProcesses
    then show ?thesis using wf ex Pair
      by (auto simp: wakeUpProcesses_closed tick_closed_def stay_wf)
  next
    case PrintQueue
    then show ?thesis using wf ex Pair by (auto simp: printQueue_def Let_def)
  next
    case (SleepFor n)
    then show ?thesis using wf ex Pair by auto
  qed
qed

lemma wf_run:
  "map_wf (waitQueue (fst w)) \<Longrightarrow> run_calls cs w = Inr w' \<Longrightarrow> map_wf (waitQueue (fst w'))"
proof (induction cs arbitrary: w)
  case Nil
  then show ?case by simp
next
  case (Cons c cs)
  then show ?case by (auto split: sum.splits dest: wf_exec)
qed

lemma lookup_exec:
  assumes wf: "map_wf (waitQueue (fst w))"
    and quiet: "\<not> names_pid pid c" and nt: "c \<noteq> WakeUpProcesses"
    and ex: "exec_call c w = Inr w'"
  shows "map_of (waitQueue (fst w')) pid = map_of (waitQueue (fst w)) pid"
proof (cases w)
  case (Pair q out)
  show ?thesis
  proof (cases c)
    case (Enqueue p)
    then show ?thesis using ex Pair by (auto simp: enqueue_def Let_def)
  next
    case (SimulateSleep pid' s)
    then obtain q' where sl: "simulateSleep pid' s q = Inr q'" and w': "w' = (q', out)"
      using ex Pair by (auto split: sum.splits)
    have ne: "pid' \<noteq> pid" using quiet SimulateSleep by simp
    from simulateSleep_wait[OF sl] show ?thesis
      using wf Pair w' ne by (auto simp: map_assign_map_of)
  next
    case WakeUpProcesses
    then show ?thesis using nt by simp
  next
    case PrintQueue
    then show ?thesis using ex Pair by (auto simp: printQueue_def Let_def)
  next
    case (SleepFor n)
    then show ?thesis using ex Pair by auto
  qed
qed

lemma listed_simulateSleep:
  assumes x: "x \<in> set (native_list p q)" and id: "proc_id x \<noteq> pid'"
    and sl: "simulateSleep pid' s q = Inr q'"
  shows "x \<in> set (native_list p q')"
proof (cases "find_if (\<lambda>p. proc_id p = pid') (fgProcesses q)")
  case None
  show ?thesis
  proof (cases "find_if (\<lambda>p. proc_id p = pid') (bgProcesses q)")
    case n: None
    then have "\<not> in_ready pid' q" using None by (simp add: in_ready_iff)
    then show ?thesis using x sl
      by (auto simp: simulateSleep_not_ready native_list_def split: option.splits if_splits)
  next
    case (Some i)
    from find_if_Some[OF Some] have "proc_id (bgProcesses q ! i) = pid'" by simp
    then have "x \<noteq> bgProcesses q ! i" using id by auto
    then show ?thesis using x sl None Some
      by (auto simp: simulateSleep_bg native_list_def in_set_erase split: if_splits)
  qed
next
  case (Some i)
  from find_if_Some[OF Some] have "proc_id (fgProcesses q ! i) = pid'" by simp
  then have "x \<noteq> fgProcesses q ! i" using id by auto
  then show ?thesis using x sl Some
    by (auto simp: simulateSleep_fg native_list_def in_set_erase split: if_splits)
qed

lemma listed_exec:
  assumes x: "x \<in> set (native_list p (fst w))" and id: "proc_id x = pid"
    and quiet: "\<not> names_pid pid c"
    and ex: "exec_call c w = Inr w'"
  shows "x \<in> set (native_list p (fst w'))"
proof (cases w)
  case (Pair q out)
  show ?thesis
  proof (cases c)
    case (Enqueue p')
    then show ?thesis using x ex Pair by (auto simp: enqueue_def Let_def native_list_def)
  next
    case (SimulateSleep pid' s)
    then obtain q' where sl: "simulateSleep pid' s q = Inr q'" and w': "w' = (q', out)"
      using ex Pair by (auto split: sum.splits)
    have ne: "proc_id x \<noteq> pid'" using quiet SimulateSleep id by simp
    show ?thesis using listed_simulateSleep[OF _ ne sl] x Pair w' by simp
  next
    case WakeUpProcesses
    then show ?thesis using x ex Pair by (auto simp: native_tick)
  next
    case PrintQueue
    then show ?thesis using x ex Pair by (auto simp: printQueue_def Let_def)
  next
    case (SleepFor n)
    then show ?thesis using x ex Pair by auto
  qed
qed

lemma tick_gone:
  "map_wf (waitQueue q) \<Longrightarrow> map_of (waitQueue q) pid = None \<Longrightarrow>
   map_of (waitQueue (wakeUpProcesses q)) pid = None"
  by (simp add: wakeUpProcesses_closed tick_closed_def stay_lookup)

lemma tick_waiting:
  "map_wf (waitQueue q) \<Longrightarrow> map_of (waitQueue q) pid = Some (p\<lparr>remainingTime := r\<rparr>) \<Longrightarrow> 1 < r \<Longrightarrow>
   map_of (waitQueue (wakeUpProcesses q)) pid = Some (p\<lparr>remainingTime := r - 1\<rparr>)"
  by (simp add: wakeUpProcesses_closed tick_closed_def stay_lookup decrement_positive)

lemma run_gone:
  assumes "map_wf (waitQueue (fst w))" and "map_of (waitQueue (fst w)) pid = None"
    and "x \<in> set (native_list p (fst w))" and "proc_id x = pid"
    and "leaves_alone pid cs" and "run_calls cs w = Inr w'"
  shows "map_of (waitQueue (fst w')) pid = None \<and> x \<in> set (native_list p (fst w'))"
  using assms
proof (induction cs arbitrary: w)
  case Nil
  then show ?case by simp
next
  case (Cons c cs)
  from Cons.prems(6) obtain w1 where ex: "exec_call c w = Inr w1" and run: "run_calls cs w1 = Inr w'"
    by (auto split: sum.splits)
  have qc: "\<not> names_pid pid c" and qcs: "leaves_alone pid cs"
    using Cons.prems(5) by (auto simp: leaves_alone_def split: if_splits)
  have wf1: "map_wf (waitQueue (fst w1))" using wf_exec[OF Cons.prems(1) ex] .
  have x1: "x \<in> set (native_list p (fst w1))"
    using listed_exec[OF Cons.prems(3,4) qc ex] .
  have g1: "map_of (waitQueue (fst w1)) pid = None"
  proof (cases "c = WakeUpProcesses")
    case True
    then show ?thesis using ex Cons.prems(1,2) tick_gone[of "fst w" pid]
      by (cases w) auto
  next
    case False
    then show ?thesis using lookup_exec[OF Cons.prems(1) qc False ex] Cons.prems(2) by simp
  qed
  show ?case using Cons.IH[OF wf1 g1 x1 Cons.prems(4) qcs run] .
qed

lemma run_waiting:
  assumes "map_wf (waitQueue (fst w))"
    and "map_of (waitQueue (fst w)) pid = Some (p\<lparr>remainingTime := r\<rparr>)"
    and "1 \<le> r" and "proc_id p = pid"
    and "leaves_alone pid cs" and "run_calls cs w = Inr w'"
  shows "map_wf (waitQueue (fst w'))
     \<and> (int (count_ticks cs) < r \<longrightarrow>
          map_of (waitQueue (fst w')) pid = Some (p\<lparr>remainingTime := r - int (count_ticks cs)\<rparr>))
     \<and> (r \<le> int (count_ticks cs) \<longrightarrow>
          map_of (waitQueue (fst w')) pid = None
          \<and> p\<lparr>remainingTime := 0\<rparr> \<in> set (native_list p (fst w')))"
  using assms
proof (induction cs arbitrary: w r)
  case Nil
  then show ?case by (simp add: count_ticks_def)
next
  case (Cons c cs)
  from Cons.prems(6) obtain w1 where ex: "exec_call c w = Inr w1" and run: "run_calls cs w1 = Inr w'"
    by (auto split: sum.splits)
  have qc: "\<not> names_pid pid c" and qcs: "leaves_alone pid cs"
    using Cons.prems(5) by (auto simp: leaves_alone_def split: if_splits)
  have wf1: "map_wf (waitQueue (fst w1))" using wf_exec[OF Cons.prems(1) ex] .
  show ?case
  proof (cases "c = WakeUpProcesses")
    case False
    have cnt: "count_ticks (c # cs) = count_ticks cs" using False by (simp add: count_ticks_def)
    have "map_of (waitQueue (fst w1)) pid = Some (p\<lparr>remainingTime := r\<rparr>)"
      using lookup_exec[OF Cons.prems(1) qc False ex] Cons.prems(2) by simp
    from Cons.IH[OF wf1 this Cons.prems(3,4) qcs run] show ?thesis by (simp add: cnt)
  next
    case True
    have cnt: "count_ticks (c # cs) = Suc (count_ticks cs)" using True by (simp add: count_ticks_def)
    have w1: "w1 = (wakeUpProcesses (fst w), snd w)" using ex True by (cases w) auto
    show ?thesis
    proof (cases "1 < r")
      case True
      have "map_of (waitQueue (fst w1)) pid = Some (p\<lparr>remainingTime := r - 1\<rparr>)"
        using tick_waiting[OF Cons.prems(1,2) True] by (simp add: w1)
      moreover have "1 \<le> r - 1" using True by simp
      ultimately show ?thesis
        using Cons.IH[OF wf1 _ _ Cons.prems(4) qcs run, of "r - 1"] by (simp add: cnt algebra_simps)
    next
      case False
      then have r1: "r = 1" using Cons.prems(3) by simp
      let ?p1 = "p\<lparr>remainingTime := r\<rparr>"
      have one: "remainingTime ?p1 = 1" using r1 by simp
      have g: "map_of (waitQueue (fst w1)) pid = None"
        using tick_expiring(1)[OF Cons.prems(1,2) one] by (simp add: w1)
      have "?p1\<lparr>remainingTime := 0\<rparr>
              \<in> set (filter (\<lambda>x. isForeground x = isForeground ?p1) (woken (waitQueue (fst w))))"
        using tick_expiring(2)[OF Cons.prems(1,2) one] .
      then have x: "p\<lparr>remainingTime := 0\<rparr> \<in> set (native_list p (fst w1))"
        by (simp add: w1 native_tick)
      have id: "proc_id (p\<lparr>remainingTime := 0\<rparr>) = pid" using Cons.prems(4) by simp
      have "map_of (waitQueue (fst w')) pid = None
            \<and> p\<lparr>remainingTime := 0\<rparr> \<in> set (native_list p (fst w'))"
        using run_gone[OF wf1 g x id qcs run] .
      moreover have "map_wf (waitQueue (fst w'))"
        using wf_run[OF wf1 run] .
      ultimately show ?thesis by (simp add: cnt r1)
    qed
  qed
qed



text \<open>
  Claim C6, as stated, fails in its words \<open>at the tail\<close>. Process 4, a foreground
  process, is waiting with one tick left when process 2, a foreground process too, is sent
  to sleep for one tick. The tick wakes both in the order of their ids, and process 2 ends
  before process 4 in the foreground list.
\<close>

theorem same_tick_counterexample:
  "ready_process 2 \<lparr>fgProcesses = [alarm], bgProcesses = [],
        waitQueue = [(4, email\<lparr>remainingTime := 1\<rparr>)],
        processCount = 2, bgCount = 0\<rparr> = Some alarm
   \<and> simulateSleep 2 1 \<lparr>fgProcesses = [alarm], bgProcesses = [],
        waitQueue = [(4, email\<lparr>remainingTime := 1\<rparr>)],
        processCount = 2, bgCount = 0\<rparr>
       = Inr \<lparr>fgProcesses = [], bgProcesses = [],
        waitQueue = [(2, alarm\<lparr>remainingTime := 1\<rparr>), (4, email\<lparr>remainingTime := 1\<rparr>)],
        processCount = 2, bgCount = 0\<rparr>
   \<and> native_list alarm (ticks 1 \<lparr>fgProcesses = [], bgProcesses = [],
        waitQueue = [(2, alarm\<lparr>remainingTime := 1\<rparr>), (4, email\<lparr>remainingTime := 1\<rparr>)],
        processCount = 2, bgCount = 0\<rparr>)
       = [alarm\<lparr>remainingTime := 0\<rparr>, email\<lparr>remainingTime := 0\<rparr>]
   \<and> last (native_list alarm (ticks 1 \<lparr>fgProcesses = [], bgProcesses = [],
        waitQueue = [(2, alarm\<lparr>remainingTime := 1\<rparr>), (4, email\<lparr>remainingTime := 1\<rparr>)],
        processCount = 2, bgCount = 0\<rparr>))
       \<noteq> alarm\<lparr>remainingTime := 0\<rparr>"
  by (simp add: eval_defs)

text \<open>
  Claim C6, amended. Let \<open>simulateSleep pid s\<close> with \<open>s\<close> at least 1 find the process
  \<open>p\<close> in a ready list. Then the call succeeds, and after any run of further calls
  that leaves the id alone (no \<open>simulateSleep\<close> for it, no \<open>enqueue\<close> of a process
  with it) and does not fail: while the run has made fewer than \<open>s\<close> ticks, \<open>p\<close> is
  in the wait map with remaining time \<open>s\<close> less the number of ticks made; once it has
  made \<open>s\<close> ticks, \<open>p\<close> has left the wait map and is in the list of its class. The
  tick that follows \<open>s - 1\<close> ticks appends \<open>p\<close> behind every process that list holds
  before it, among the processes this tick wakes; \<open>p\<close> is then the last of the list
  when no entry of the wait map with a larger id and the same class expires at the same
  tick.
\<close>

theorem sleep_then_ticks:
  assumes wf: "map_wf (waitQueue q0)"
    and rp: "ready_process pid q0 = Some p"
    and s: "1 \<le> s"
    and quiet: "leaves_alone pid cs"
  shows "\<exists>q1. simulateSleep pid s q0 = Inr q1
     \<and> (\<forall>out q2 out2. run_calls cs (q1, out) = Inr (q2, out2) \<longrightarrow>
          (int (count_ticks cs) < s \<longrightarrow>
             map_of (waitQueue q2) pid = Some (p\<lparr>remainingTime := s - int (count_ticks cs)\<rparr>))
        \<and> (s \<le> int (count_ticks cs) \<longrightarrow>
             map_of (waitQueue q2) pid = None
             \<and> p\<lparr>remainingTime := 0\<rparr> \<in> set (native_list p q2))
        \<and> (int (count_ticks cs) = s - 1 \<longrightarrow>
             map_of (waitQueue (wakeUpProcesses q2)) pid = None
             \<and> native_list p (wakeUpProcesses q2)
                 = native_list p q2
                   @ filter (\<lambda>x. isForeground x = isForeground p) (woken (waitQueue q2))
             \<and> p\<lparr>remainingTime := 0\<rparr>
                 \<in> set (filter (\<lambda>x. isForeground x = isForeground p) (woken (waitQueue q2)))
             \<and> (later_expiring pid p (waitQueue q2) = []
                  \<longrightarrow> last (native_list p (wakeUpProcesses q2)) = p\<lparr>remainingTime := 0\<rparr>)))"
proof -
  obtain q1 where sl: "simulateSleep pid s q0 = Inr q1"
    and wf1: "map_wf (waitQueue q1)"
    and w1: "map_of (waitQueue q1) pid = Some (p\<lparr>remainingTime := s\<rparr>)"
    using simulateSleep_ready_process[OF rp wf, of s] by blast
  have id: "proc_id p = pid"
    using rp by (auto simp: ready_process_def split: option.splits dest: find_if_Some)
  have "(int (count_ticks cs) < s \<longrightarrow>
             map_of (waitQueue q2) pid = Some (p\<lparr>remainingTime := s - int (count_ticks cs)\<rparr>))
        \<and> (s \<le> int (count_ticks cs) \<longrightarrow>
             map_of (waitQueue q2) pid = None
             \<and> p\<lparr>remainingTime := 0\<rparr> \<in> set (native_list p q2))
        \<and> (int (count_ticks cs) = s - 1 \<longrightarrow>
             map_of (waitQueue (wakeUpProcesses q2)) pid = None
             \<and> native_list p (wakeUpProcesses q2)
                 = native_list p q2
                   @ filter (\<lambda>x. isForeground x = isForeground p) (woken (waitQueue q2))
             \<and> p\<lparr>remainingTime := 0\<rparr>
                 \<in> set (filter (\<lambda>x. isForeground x = isForeground p) (woken (waitQueue q2)))
             \<and> (later_expiring pid p (waitQueue q2) = []
                  \<longrightarrow> last (native_list p (wakeUpProcesses q2)) = p\<lparr>remainingTime := 0\<rparr>))"
    if run: "run_calls cs (q1, out) = Inr (q2, out2)" for out q2 out2
  proof -
    have rw: "map_wf (waitQueue q2)
       \<and> (int (count_ticks cs) < s \<longrightarrow>
            map_of (waitQueue q2) pid = Some (p\<lparr>remainingTime := s - int (count_ticks cs)\<rparr>))
       \<and> (s \<le> int (count_ticks cs) \<longrightarrow>
            map_of (waitQueue q2) pid = None
            \<and> p\<lparr>remainingTime := 0\<rparr> \<in> set (native_list p q2))"
      using run_waiting[where w = "(q1, out)" and pid = pid and p = p and r = s and cs = cs
          and w' = "(q2, out2)"] wf1 w1 s id quiet run by simp
    have last_tick: "map_of (waitQueue (wakeUpProcesses q2)) pid = None
             \<and> native_list p (wakeUpProcesses q2)
                 = native_list p q2
                   @ filter (\<lambda>x. isForeground x = isForeground p) (woken (waitQueue q2))
             \<and> p\<lparr>remainingTime := 0\<rparr>
                 \<in> set (filter (\<lambda>x. isForeground x = isForeground p) (woken (waitQueue q2)))
             \<and> (later_expiring pid p (waitQueue q2) = []
                  \<longrightarrow> last (native_list p (wakeUpProcesses q2)) = p\<lparr>remainingTime := 0\<rparr>)"
      if c: "int (count_ticks cs) = s - 1"
    proof -
      let ?p1 = "p\<lparr>remainingTime := 1\<rparr>"
      have wfn: "map_wf (waitQueue q2)" using rw by simp
      have wn: "map_of (waitQueue q2) pid = Some ?p1" using rw c by simp
      have one: "remainingTime ?p1 = 1" by simp
      have le: "later_expiring pid ?p1 m = later_expiring pid p m" for m
        by (simp add: later_expiring_def)
      have nl: "native_list ?p1 q = native_list p q" for q by (simp add: native_list_def)
      show ?thesis
        using tick_expiring(1)[OF wfn wn one] tick_expiring(2)[OF wfn wn one]
          tick_expiring(3)[OF wfn wn one]
        by (simp add: le nl native_tick)
    qed
    show ?thesis using rw last_tick by blast
  qed
  then show ?thesis using sl by blast
qed


theorem sleep_then_ticks_witness:
  "map_wf (waitQueue \<lparr>fgProcesses = [alarm], bgProcesses = [todo],
        waitQueue = [],
        processCount = 2, bgCount = 1\<rparr>)
   \<and> ready_process 2 \<lparr>fgProcesses = [alarm], bgProcesses = [todo],
        waitQueue = [],
        processCount = 2, bgCount = 1\<rparr> = Some alarm
   \<and> (1::int) \<le> 2
   \<and> leaves_alone 2 [WakeUpProcesses, Enqueue email, SimulateSleep 3 7]
   \<and> leaves_alone 2 [WakeUpProcesses, Enqueue email, WakeUpProcesses, Enqueue (mk_Process 6 True ''video player'')]
   \<and> simulateSleep 2 2 \<lparr>fgProcesses = [alarm], bgProcesses = [todo],
        waitQueue = [],
        processCount = 2, bgCount = 1\<rparr>
       = Inr \<lparr>fgProcesses = [], bgProcesses = [todo],
        waitQueue = [(2, alarm\<lparr>remainingTime := 2\<rparr>)],
        processCount = 2, bgCount = 1\<rparr>
   \<and> run_calls [WakeUpProcesses, Enqueue email, SimulateSleep 3 7]
         (\<lparr>fgProcesses = [], bgProcesses = [todo],
        waitQueue = [(2, alarm\<lparr>remainingTime := 2\<rparr>)],
        processCount = 2, bgCount = 1\<rparr>, [])
       = Inr (\<lparr>fgProcesses = [email], bgProcesses = [],
        waitQueue = [(2, alarm\<lparr>remainingTime := 1\<rparr>), (3, todo\<lparr>remainingTime := 7\<rparr>)],
        processCount = 3, bgCount = 0\<rparr>, [])
   \<and> int (count_ticks [WakeUpProcesses, Enqueue email, SimulateSleep 3 7]) < 2
   \<and> int (count_ticks [WakeUpProcesses, Enqueue email, SimulateSleep 3 7]) = 2 - 1
   \<and> map_of (waitQueue \<lparr>fgProcesses = [email], bgProcesses = [],
        waitQueue = [(2, alarm\<lparr>remainingTime := 1\<rparr>), (3, todo\<lparr>remainingTime := 7\<rparr>)],
        processCount = 3, bgCount = 0\<rparr>) 2
       = Some (alarm\<lparr>remainingTime := 1\<rparr>)
   \<and> later_expiring 2 alarm (waitQueue \<lparr>fgProcesses = [email], bgProcesses = [],
        waitQueue = [(2, alarm\<lparr>remainingTime := 1\<rparr>), (3, todo\<lparr>remainingTime := 7\<rparr>)],
        processCount = 3, bgCount = 0\<rparr>) = []
   \<and> last (native_list alarm (wakeUpProcesses \<lparr>fgProcesses = [email], bgProcesses = [],
        waitQueue = [(2, alarm\<lparr>remainingTime := 1\<rparr>), (3, todo\<lparr>remainingTime := 7\<rparr>)],
        processCount = 3, bgCount = 0\<rparr>))
       = alarm\<lparr>remainingTime := 0\<rparr>
   \<and> run_calls [WakeUpProcesses, Enqueue email, WakeUpProcesses, Enqueue (mk_Process 6 True ''video player'')]
         (\<lparr>fgProcesses = [], bgProcesses = [todo],
        waitQueue = [(2, alarm\<lparr>remainingTime := 2\<rparr>)],
        processCount = 2, bgCount = 1\<rparr>, [])
       = Inr (\<lparr>fgProcesses = [email, alarm\<lparr>remainingTime := 0\<rparr>, mk_Process 6 True ''video player''], bgProcesses = [todo],
        waitQueue = [],
        processCount = 4, bgCount = 1\<rparr>, [])
   \<and> 2 \<le> int (count_ticks [WakeUpProcesses, Enqueue email, WakeUpProcesses, Enqueue (mk_Process 6 True ''video player'')])
   \<and> map_of (waitQueue \<lparr>fgProcesses = [email, alarm\<lparr>remainingTime := 0\<rparr>, mk_Process 6 True ''video player''], bgProcesses = [todo],
        waitQueue = [],
        processCount = 4, bgCount = 1\<rparr>) 2 = None
   \<and> alarm\<lparr>remainingTime := 0\<rparr>
       \<in> set (native_list alarm \<lparr>fgProcesses = [email, alarm\<lparr>remainingTime := 0\<rparr>, mk_Process 6 True ''video player''], bgProcesses = [todo],
        waitQueue = [],
        processCount = 4, bgCount = 1\<rparr>)"
proof -
  let ?Q0 = "\<lparr>fgProcesses = [alarm], bgProcesses = [todo], waitQueue = [],
               processCount = 2, bgCount = 1\<rparr>"
  let ?CS1 = "[WakeUpProcesses, Enqueue email, SimulateSleep 3 7]"
  let ?CS2 = "[WakeUpProcesses, Enqueue email, WakeUpProcesses,
               Enqueue (mk_Process 6 True ''video player'')]"
  have wf: "map_wf (waitQueue ?Q0)" by (simp add: map_wf_def)
  have rp: "ready_process 2 ?Q0 = Some alarm" by (simp add: eval_defs)
  have s: "(1::int) \<le> 2" by simp
  have l1: "leaves_alone 2 ?CS1" by (simp add: leaves_alone_def eval_defs)
  have l2: "leaves_alone 2 ?CS2" by (simp add: leaves_alone_def eval_defs)
  let ?Q1 = "\<lparr>fgProcesses = [], bgProcesses = [todo],
               waitQueue = [(2, alarm\<lparr>remainingTime := 2\<rparr>)],
               processCount = 2, bgCount = 1\<rparr>"
  let ?Q2 = "\<lparr>fgProcesses = [email], bgProcesses = [],
               waitQueue = [(2, alarm\<lparr>remainingTime := 1\<rparr>), (3, todo\<lparr>remainingTime := 7\<rparr>)],
               processCount = 3, bgCount = 0\<rparr>"
  let ?Q3 = "\<lparr>fgProcesses = [email, alarm\<lparr>remainingTime := 0\<rparr>,
                              mk_Process 6 True ''video player''],
               bgProcesses = [todo], waitQueue = [], processCount = 4, bgCount = 1\<rparr>"
  have sl: "simulateSleep 2 2 ?Q0 = Inr ?Q1" by (simp add: eval_defs)
  have r1: "run_calls ?CS1 (?Q1, []) = Inr (?Q2, [])" by (simp add: eval_defs)
  have r2: "run_calls ?CS2 (?Q1, []) = Inr (?Q3, [])" by (simp add: eval_defs)
  have c1: "int (count_ticks ?CS1) < 2" "int (count_ticks ?CS1) = 2 - 1"
    by (simp_all add: count_ticks_def)
  have c2: "2 \<le> int (count_ticks ?CS2)" by (simp add: count_ticks_def)
  have le: "later_expiring 2 alarm (waitQueue ?Q2) = []" by (simp add: eval_defs)
  obtain q1 where q1: "simulateSleep 2 2 ?Q0 = Inr q1"
    and a: "\<And>out q2 out2. run_calls ?CS1 (q1, out) = Inr (q2, out2) \<Longrightarrow>
          (int (count_ticks ?CS1) < 2 \<longrightarrow>
             map_of (waitQueue q2) 2 = Some (alarm\<lparr>remainingTime := 2 - int (count_ticks ?CS1)\<rparr>))
        \<and> (int (count_ticks ?CS1) = 2 - 1 \<longrightarrow>
             (later_expiring 2 alarm (waitQueue q2) = []
                  \<longrightarrow> last (native_list alarm (wakeUpProcesses q2)) = alarm\<lparr>remainingTime := 0\<rparr>))"
    using sleep_then_ticks [OF wf rp s l1] by blast
  have e1: "q1 = ?Q1" using q1 sl by simp
  obtain q1' where q1': "simulateSleep 2 2 ?Q0 = Inr q1'"
    and b: "\<And>out q2 out2. run_calls ?CS2 (q1', out) = Inr (q2, out2) \<Longrightarrow>
        (2 \<le> int (count_ticks ?CS2) \<longrightarrow>
             map_of (waitQueue q2) 2 = None
             \<and> alarm\<lparr>remainingTime := 0\<rparr> \<in> set (native_list alarm q2))"
    using sleep_then_ticks [OF wf rp s l2] by blast
  have e2: "q1' = ?Q1" using q1' sl by simp
  have w1: "map_of (waitQueue ?Q2) 2 = Some (alarm\<lparr>remainingTime := 1\<rparr>)"
    and t1: "last (native_list alarm (wakeUpProcesses ?Q2)) = alarm\<lparr>remainingTime := 0\<rparr>"
    using a[of "[]" ?Q2 "[]"] r1 c1 le unfolding e1 by (simp_all add: count_ticks_def)
  have w2: "map_of (waitQueue ?Q3) 2 = None"
    and t2: "alarm\<lparr>remainingTime := 0\<rparr> \<in> set (native_list alarm ?Q3)"
    using b[of "[]" ?Q3 "[]"] r2 c2 unfolding e2 by simp_all
  show ?thesis
    using wf rp s l1 l2 sl r1 r2 c1 c2 le w1 t1 w2 t2 by blast
qed

section \<open>Enqueue, sleep and wake up\<close>

lemma find_if_append_found:
  "find_if P xs = None \<Longrightarrow> P x \<Longrightarrow> find_if P (xs @ [x]) = Some (length xs)"
  by (induction xs) (auto split: if_splits)

lemma erase_appended: "erase (length xs) (xs @ [x]) = xs"
  by (simp add: erase_def)

lemma enqueue_then_sleep:
  assumes fresh: "proc_id p \<notin> set (held_ids q0)"
  shows "simulateSleep (proc_id p) s (enqueue p q0)
           = Inr (q0\<lparr>waitQueue := map_assign (proc_id p) (p\<lparr>remainingTime := s\<rparr>) (waitQueue q0),
                    processCount := processCount q0 + 1\<rparr>)"
proof -
  let ?P = "\<lambda>x. proc_id x = proc_id p"
  have "proc_id p \<notin> proc_id ` set (fgProcesses q0)" and "proc_id p \<notin> proc_id ` set (bgProcesses q0)"
    using fresh by (simp_all add: held_ids_def)
  then have nf: "find_if ?P (fgProcesses q0) = None" and nb: "find_if ?P (bgProcesses q0) = None"
    unfolding find_if_None by (metis image_eqI)+
  show ?thesis
  proof (cases "isForeground p")
    case True
    have f: "find_if ?P (fgProcesses (enqueue p q0)) = Some (length (fgProcesses q0))"
      using True nf by (simp add: enqueue_def Let_def find_if_append_found)
    show ?thesis
      using True by (simp add: simulateSleep_fg[OF f]) (simp add: enqueue_def Let_def erase_appended)
  next
    case False
    have f: "find_if ?P (fgProcesses (enqueue p q0)) = None"
      using False nf by (simp add: enqueue_def Let_def)
    have b: "find_if ?P (bgProcesses (enqueue p q0)) = Some (length (bgProcesses q0))"
      using False nb by (simp add: enqueue_def Let_def find_if_append_found)
    show ?thesis
      using False by (simp add: simulateSleep_bg[OF f b]) (simp add: enqueue_def Let_def erase_appended)
  qed
qed

lemma single_waiter_ticks:
  "int k < s \<Longrightarrow>
   ticks k (q\<lparr>waitQueue := [(pid, p\<lparr>remainingTime := s\<rparr>)]\<rparr>)
     = q\<lparr>waitQueue := [(pid, p\<lparr>remainingTime := s - int k\<rparr>)]\<rparr>"
proof (induction k)
  case 0
  show ?case by simp
next
  case (Suc k)
  then have "ticks k (q\<lparr>waitQueue := [(pid, p\<lparr>remainingTime := s\<rparr>)]\<rparr>)
     = q\<lparr>waitQueue := [(pid, p\<lparr>remainingTime := s - int k\<rparr>)]\<rparr>" by simp
  moreover have "decrement (s - int k) = s - int k - 1"
    using Suc.prems by (simp add: decrement_positive)
  ultimately show ?case using Suc.prems
    by (simp add: wakeUpProcesses_closed tick_closed_def woken_def stay_def tick_entry_def
        algebra_simps)
qed

text \<open>
  Claim C7, as stated, fails. The ticks that bring \<open>p\<close> back act on every waiting
  process. Process 3 waits with one tick left in a queue that does not hold id 2;
  enqueueing process 2, sending it to sleep for one tick and ticking once wakes process 3
  as well, whereas after \<open>enqueue\<close> alone process 3 is still waiting.
\<close>

theorem other_waiter_counterexample:
  "proc_id alarm \<notin> set (held_ids \<lparr>fgProcesses = [], bgProcesses = [],
        waitQueue = [(3, todo\<lparr>remainingTime := 1\<rparr>)],
        processCount = 1, bgCount = 0\<rparr>)
   \<and> simulateSleep (proc_id alarm) 1 (enqueue alarm \<lparr>fgProcesses = [], bgProcesses = [],
        waitQueue = [(3, todo\<lparr>remainingTime := 1\<rparr>)],
        processCount = 1, bgCount = 0\<rparr>)
       = Inr \<lparr>fgProcesses = [], bgProcesses = [],
        waitQueue = [(2, alarm\<lparr>remainingTime := 1\<rparr>), (3, todo\<lparr>remainingTime := 1\<rparr>)],
        processCount = 2, bgCount = 0\<rparr>
   \<and> ticks 1 \<lparr>fgProcesses = [], bgProcesses = [],
        waitQueue = [(2, alarm\<lparr>remainingTime := 1\<rparr>), (3, todo\<lparr>remainingTime := 1\<rparr>)],
        processCount = 2, bgCount = 0\<rparr>
       = \<lparr>fgProcesses = [alarm\<lparr>remainingTime := 0\<rparr>], bgProcesses = [todo\<lparr>remainingTime := 0\<rparr>],
        waitQueue = [], processCount = 2, bgCount = 1\<rparr>
   \<and> enqueue alarm \<lparr>fgProcesses = [], bgProcesses = [],
        waitQueue = [(3, todo\<lparr>remainingTime := 1\<rparr>)],
        processCount = 1, bgCount = 0\<rparr>
       = \<lparr>fgProcesses = [alarm], bgProcesses = [],
        waitQueue = [(3, todo\<lparr>remainingTime := 1\<rparr>)],
        processCount = 2, bgCount = 0\<rparr>
   \<and> bgProcesses (ticks 1 \<lparr>fgProcesses = [], bgProcesses = [],
        waitQueue = [(2, alarm\<lparr>remainingTime := 1\<rparr>), (3, todo\<lparr>remainingTime := 1\<rparr>)],
        processCount = 2, bgCount = 0\<rparr>)
       \<noteq> bgProcesses (enqueue alarm \<lparr>fgProcesses = [], bgProcesses = [],
        waitQueue = [(3, todo\<lparr>remainingTime := 1\<rparr>)],
        processCount = 1, bgCount = 0\<rparr>)
   \<and> waitQueue (ticks 1 \<lparr>fgProcesses = [], bgProcesses = [],
        waitQueue = [(2, alarm\<lparr>remainingTime := 1\<rparr>), (3, todo\<lparr>remainingTime := 1\<rparr>)],
        processCount = 2, bgCount = 0\<rparr>)
       \<noteq> waitQueue (enqueue alarm \<lparr>fgProcesses = [], bgProcesses = [],
        waitQueue = [(3, todo\<lparr>remainingTime := 1\<rparr>)],
        processCount = 1, bgCount = 0\<rparr>)"
  by (simp add: eval_defs)

text \<open>
  Claim C7, amended. Let the wait map of the queue be empty and the id of \<open>p\<close> be new
  to the queue, and let \<open>s\<close> be at least 1. Then \<open>enqueue p\<close>, \<open>simulateSleep\<close> of
  its id for \<open>s\<close> seconds and \<open>s\<close> ticks give exactly the state that \<open>enqueue\<close>
  alone gives for \<open>p\<close> with remaining time 0, the value the constructor sets: \<open>p\<close> is
  the last of the list of its class in both.
\<close>

theorem enqueue_sleep_ticks_roundtrip:
  assumes empty: "waitQueue q0 = []"
    and fresh: "proc_id p \<notin> set (held_ids q0)"
    and s: "1 \<le> s"
  shows "\<exists>q1. simulateSleep (proc_id p) s (enqueue p q0) = Inr q1
              \<and> ticks (nat s) q1 = enqueue (p\<lparr>remainingTime := 0\<rparr>) q0"
proof -
  let ?q = "q0\<lparr>processCount := processCount q0 + 1\<rparr>"
  let ?q1 = "?q\<lparr>waitQueue := [(proc_id p, p\<lparr>remainingTime := s\<rparr>)]\<rparr>"
  have sl: "simulateSleep (proc_id p) s (enqueue p q0) = Inr ?q1"
    by (simp add: enqueue_then_sleep[OF fresh] empty)
  define n where "n = nat s - 1"
  have ns: "nat s = Suc n" and n: "int n < s" and one: "s - int n = 1"
    using s by (simp_all add: n_def)
  have "ticks n ?q1 = ?q\<lparr>waitQueue := [(proc_id p, p\<lparr>remainingTime := 1\<rparr>)]\<rparr>"
    using single_waiter_ticks[where q = ?q and pid = "proc_id p" and p = p, OF n] one by simp
  then have "ticks (nat s) ?q1 = enqueue (p\<lparr>remainingTime := 0\<rparr>) q0"
    using empty
    by (simp add: ns wakeUpProcesses_closed tick_closed_def woken_def stay_def tick_entry_def
        decrement_positive enqueue_def Let_def)
  then show ?thesis using sl by blast
qed

theorem enqueue_sleep_ticks_roundtrip_witness:
  "waitQueue \<lparr>fgProcesses = [], bgProcesses = [todo],
        waitQueue = [], processCount = 1, bgCount = 1\<rparr> = []
   \<and> proc_id alarm \<notin> set (held_ids \<lparr>fgProcesses = [], bgProcesses = [todo],
        waitQueue = [], processCount = 1, bgCount = 1\<rparr>)
   \<and> (1::int) \<le> 2
   \<and> simulateSleep (proc_id alarm) 2 (enqueue alarm \<lparr>fgProcesses = [], bgProcesses = [todo],
        waitQueue = [], processCount = 1, bgCount = 1\<rparr>)
       = Inr \<lparr>fgProcesses = [], bgProcesses = [todo],
        waitQueue = [(2, alarm\<lparr>remainingTime := 2\<rparr>)],
        processCount = 2, bgCount = 1\<rparr>
   \<and> ticks (nat 2) \<lparr>fgProcesses = [], bgProcesses = [todo],
        waitQueue = [(2, alarm\<lparr>remainingTime := 2\<rparr>)],
        processCount = 2, bgCount = 1\<rparr>
       = enqueue (alarm\<lparr>remainingTime := 0\<rparr>) \<lparr>fgProcesses = [], bgProcesses = [todo],
        waitQueue = [], processCount = 1, bgCount = 1\<rparr>"
  using enqueue_sleep_ticks_roundtrip [of "\<lparr>fgProcesses = [], bgProcesses = [todo],
        waitQueue = [], processCount = 1, bgCount = 1\<rparr>" alarm 2]
  by (simp add: eval_defs eval_nat_numeral)

section \<open>The shell agent\<close>

lemma printQueue_eq: "printQueue q out = (q, out @ spec_snapshot q)"
  by (simp add: printQueue_def Let_def spec_snapshot_def spec_lines_def spec_separator_literal
      print_ready_concat print_wait_concat toString_label)

lemma int_wrap_in_range: "INT_MIN \<le> x \<Longrightarrow> x \<le> INT_MAX \<Longrightarrow> int_wrap x = x"
  by (simp add: int_wrap_def INT_MIN_def INT_MAX_def)

lemma int_wrap_beyond_range:
  "int_wrap (1073741824 * 2) = INT_MIN" and "int_wrap (- 1073741825 * 2) = 2147483646"
  by (simp_all add: int_wrap_def INT_MIN_def)

lemma int_wrap_double:
  "- 1073741824 \<le> interval \<Longrightarrow> interval < 1073741824 \<Longrightarrow> int_wrap (interval * 2) = 2 * interval"
  using int_wrap_in_range[of "interval * 2"] by (simp add: INT_MIN_def INT_MAX_def)

text \<open>
  Claim C5. The shell agent, for every interval whose double is an \<open>int\<close>, makes these
  calls and no others: for each command of the catalogue in turn it enqueues a new
  process, with the ids 2 to 7 in this order, a foreground process exactly for the even
  ids; directly after the enqueue of the processes 2 and 5, and of no other, it calls
  \<open>simulateSleep\<close> for that id with twice the interval; then it sleeps and prints. Run
  alone on the queue of \<open>main\<close> it leaves the processes 2 and 5 in the wait map with
  remaining time twice the interval, and the other four in the list of their class.
\<close>

theorem shellProcess_calls:
  assumes "- 1073741824 \<le> interval" and "interval < 1073741824"
  shows "shellProcess interval =
     [Enqueue (mk_Process 2 True ''alarm clock''), SimulateSleep 2 (2 * interval),
      SleepFor interval, PrintQueue,
      Enqueue (mk_Process 3 False ''todo list''),
      SleepFor interval, PrintQueue,
      Enqueue (mk_Process 4 True ''email check''),
      SleepFor interval, PrintQueue,
      Enqueue (mk_Process 5 False ''music player''), SimulateSleep 5 (2 * interval),
      SleepFor interval, PrintQueue,
      Enqueue (mk_Process 6 True ''video player''),
      SleepFor interval, PrintQueue,
      Enqueue (mk_Process 7 False ''web browser''),
      SleepFor interval, PrintQueue]
   \<and> map_sum (\<lambda>e. e) fst (run_calls (shellProcess interval) (main_queue, []))
       = Inr \<lparr>fgProcesses = [mk_Process 0 True ''shell'', mk_Process 4 True ''email check'',
                              mk_Process 6 True ''video player''],
              bgProcesses = [mk_Process 1 False ''monitor'', mk_Process 3 False ''todo list'',
                              mk_Process 7 False ''web browser''],
              waitQueue =
                [(2, (mk_Process 2 True ''alarm clock'')\<lparr>remainingTime := 2 * interval\<rparr>),
                 (5, (mk_Process 5 False ''music player'')\<lparr>remainingTime := 2 * interval\<rparr>)],
              processCount = 8, bgCount = 3\<rparr>"
  using int_wrap_double[OF assms]
  by (simp add: shellProcess_def commands_def main_queue_def printQueue_eq eval_defs)

theorem shellProcess_calls_witness:
  "- 1073741824 \<le> (5::int) \<and> (5::int) < 1073741824
   \<and> shellProcess 5 =
     [Enqueue (mk_Process 2 True ''alarm clock''), SimulateSleep 2 10,
      SleepFor 5, PrintQueue,
      Enqueue (mk_Process 3 False ''todo list''),
      SleepFor 5, PrintQueue,
      Enqueue (mk_Process 4 True ''email check''),
      SleepFor 5, PrintQueue,
      Enqueue (mk_Process 5 False ''music player''), SimulateSleep 5 10,
      SleepFor 5, PrintQueue,
      Enqueue (mk_Process 6 True ''video player''),
      SleepFor 5, PrintQueue,
      Enqueue (mk_Process 7 False ''web browser''),
      SleepFor 5, PrintQueue]"
  using shellProcess_calls [of 5] by simp

end
